theory Spec2Isabelle
  imports Main "HOL-Library.Char_ord" "HOL-Library.List_Lexorder" "HOL-Library.Monad_Syntax"
    "HOL-Library.Multiset"
begin

section \<open>Data model\<close>

text \<open>
  The file cache of the extension (module \<^verbatim>\<open>cache.ts\<close>) is a JavaScript
  \<^verbatim>\<open>Map<string, Set<ICacheItem>>\<close> together with three module-level booleans and
  the table \<^verbatim>\<open>taskGlobs\<close>.  A JavaScript \<^verbatim>\<open>Set\<close> of objects compares its
  members by object identity and iterates in insertion order, and the variable \<^verbatim>\<open>fCache\<close>
  of \<^verbatim>\<open>buildCache\<close> keeps pointing to a \<^verbatim>\<open>Set\<close> object after the map has been
  cleared.  Both facts are kept: every object has an address (\<open>ref\<close>), the map sends a
  task-type key to the address of its \<^verbatim>\<open>Set\<close>, a store sends that address to the
  members in insertion order, and each member carries the address it was allocated at.
\<close>

type_synonym ref = nat

record Uri =
  path :: string
  fsPath :: string

record WorkspaceFolder =
  name :: string
  rootUri :: Uri

record ICacheItem =
  uri :: Uri
  folder :: WorkspaceFolder

text \<open>\<^verbatim>\<open>Set.prototype.add\<close> and \<^verbatim>\<open>Set.prototype.delete\<close> on a set of objects.\<close>

definition set_add :: "ref \<times> 'a \<Rightarrow> (ref \<times> 'a) list \<Rightarrow> (ref \<times> 'a) list" where
  "set_add x xs = (if fst x \<in> fst ` set xs then xs else xs @ [x])"

definition set_delete :: "ref \<times> 'a \<Rightarrow> (ref \<times> 'a) list \<Rightarrow> (ref \<times> 'a) list" where
  "set_delete x xs = filter (\<lambda>y. fst y \<noteq> fst x) xs"

text \<open>
  The module variables of \<^verbatim>\<open>cache.ts\<close>.  \<open>taskGlobs\<close> is a plain object read by
  \<^verbatim>\<open>taskGlobs[taskType]\<close>: a missing property and the value \<^verbatim>\<open>undefined\<close> are both
  \<open>None\<close>.  \<open>nextRef\<close> is the next free object address.
\<close>

record state =
  cacheBuilding :: bool
  folderCaching :: bool
  cancel :: bool
  taskGlobs :: "string \<Rightarrow> string option"
  filesCache :: "string \<rightharpoonup> ref"
  heap :: "ref \<Rightarrow> (ref \<times> ICacheItem) list"
  nextRef :: ref

text \<open>
  The second cache module of the repository (the one that imports \<^verbatim>\<open>./util\<close>) stores
  \<^verbatim>\<open>{ uri, folder: workspace.getWorkspaceFolder(uri) }\<close> in a \<^verbatim>\<open>Set<any>\<close>, so the
  folder of an item may be \<^verbatim>\<open>undefined\<close> there.  Its module variables are
  \<^verbatim>\<open>filesCache\<close>, \<^verbatim>\<open>cacheBuilding\<close> and \<^verbatim>\<open>cancel\<close>.
\<close>

record alt_item =
  alt_uri :: Uri
  alt_folder :: "WorkspaceFolder option"

record alt_state =
  alt_cacheBuilding :: bool
  alt_cancel :: bool
  alt_filesCache :: "string \<rightharpoonup> ref"
  alt_heap :: "ref \<Rightarrow> (ref \<times> alt_item) list"
  alt_nextRef :: ref

text \<open>
  The tasks a provider returns: the fields of a VS Code \<^verbatim>\<open>Task\<close> that the providers
  set, with its \<^verbatim>\<open>TaskExplorerDefinition\<close> and its \<^verbatim>\<open>ShellExecution\<close>.
\<close>

datatype TaskGroup = Build | Clean | Rebuild | Test

record TaskExplorerDefinition =
  defType :: string
  defScript :: string
  defTarget :: string
  defPath :: string
  defFileName :: string
  defUri :: "Uri option"

record ShellExecution =
  execCommand :: string
  execArgs :: "string list"
  execCwd :: string

record Task =
  taskDefinition :: TaskExplorerDefinition
  taskScope :: WorkspaceFolder
  taskName :: string
  taskSource :: string
  taskExecution :: ShellExecution
  taskProblemMatchers :: "string list"
  taskGroup :: "TaskGroup option"

text \<open>The fields of \<^verbatim>\<open>TaskExplorerProvider\<close>.\<close>

record provider =
  cachedTasks :: "Task list option"
  invalidating :: bool
  providerName :: string
  queue :: "Uri list"

text \<open>
  What the module gets from the extension host, the configuration and the helper module
  \<^verbatim>\<open>common/utils\<close>, none of which is part of the modelled code.  A provider object is
  represented by its method \<^verbatim>\<open>getGlobPattern\<close>.  \<open>findFiles h folder glob\<close> stands for
  \<^verbatim>\<open>workspace.findFiles(new RelativePattern(folder, glob), getExcludesPattern(folder))\<close>.
  \<open>tomlScripts h contents\<close> stands for reading \<^verbatim>\<open>contents\<close> with the TOML reader
  of the package \<^verbatim>\<open>@sgarciac/bombadil\<close> and taking \<^verbatim>\<open>pipfile.result?.scripts\<close>:
  the properties of the scripts table in the order the reader creates them, which is the
  order of the entries in the file; \<open>None\<close> when the result or its \<^verbatim>\<open>scripts\<close> is
  missing.  \<open>existsInArray\<close> returns the index found, or \<open>None\<close> for \<^verbatim>\<open>false\<close>.
  \<open>yield\<close> is what the other asynchronous activities of the extension do to the module
  variables while a function is suspended on a timer (\<^verbatim>\<open>util.timeout\<close>) or on the file
  search; awaiting one of the module's own functions is taken to resume directly.
  Logging and the status bar item do not touch the module variables and are left out.
\<close>

record host =
  getTaskTypes :: "string list"
  providersExternal :: "(string \<times> (string \<Rightarrow> string option)) list"
  providers :: "string \<rightharpoonup> (string \<Rightarrow> string option)"
  enabled :: "string \<Rightarrow> bool"
  isWatchTask :: "string \<Rightarrow> bool"
  getTaskProviderType :: "string \<Rightarrow> string"
  getGlobPattern :: "string \<Rightarrow> string option"
  workspaceFolders :: "WorkspaceFolder list option"
  getWorkspaceFolder :: "Uri \<Rightarrow> WorkspaceFolder option"
  findFiles :: "WorkspaceFolder \<Rightarrow> string option \<Rightarrow> Uri list"
  isExcluded :: "string \<Rightarrow> bool"
  pathExists :: "string \<Rightarrow> bool"
  yield :: "state \<Rightarrow> state"
  pathToPipenv :: string
  pythonPathSetting :: "string option"
  dirname :: "string \<Rightarrow> string"
  basename :: "string \<Rightarrow> string"
  getRelativePath :: "WorkspaceFolder \<Rightarrow> Uri \<Rightarrow> string"
  readFileSync :: "string \<Rightarrow> string"
  tomlScripts :: "string \<Rightarrow> (string \<times> string) list option"
  removeFromArray :: "Task list \<Rightarrow> Task \<Rightarrow> Task list"
  existsInArray :: "string list \<Rightarrow> string \<Rightarrow> nat option"
  excludeSetting :: "string list"

text \<open>JavaScript truthiness of a value that is a string or \<^verbatim>\<open>undefined\<close>.\<close>

definition truthy :: "string option \<Rightarrow> bool" where
  "truthy g = (case g of None \<Rightarrow> False | Some s \<Rightarrow> s \<noteq> [])"

section \<open>The cache module\<close>

text \<open>
  \<^verbatim>\<open>if (!filesCache.get(taskAlias)) filesCache.set(taskAlias, new Set());\<close> followed by
  \<^verbatim>\<open>filesCache.get(taskAlias)\<close>: the address of the set of the key, allocated when absent.
\<close>

definition ensureSet :: "string \<Rightarrow> state \<Rightarrow> ref \<times> state" where
  "ensureSet taskAlias st =
     (case filesCache st taskAlias of
        Some r \<Rightarrow> (r, st)
      | None \<Rightarrow> (nextRef st,
          st\<lparr>filesCache := (filesCache st)(taskAlias \<mapsto> nextRef st),
             heap := (heap st)(nextRef st := []),
             nextRef := Suc (nextRef st)\<rparr>))"

text \<open>\<^verbatim>\<open>fCache.add({ uri, folder })\<close>: the object literal is a new object.\<close>

definition addItem :: "ref \<Rightarrow> ICacheItem \<Rightarrow> state \<Rightarrow> state" where
  "addItem fCache item st =
     st\<lparr>heap := (heap st)(fCache := set_add (nextRef st, item) (heap st fCache)),
        nextRef := Suc (nextRef st)\<rparr>"

definition cancelInternal :: "bool \<Rightarrow> state \<Rightarrow> state" where
  "cancelInternal setCacheBuilding st =
     (if setCacheBuilding then st\<lparr>cacheBuilding := False, cancel := False\<rparr> else st)"

text \<open>The loop over \<^verbatim>\<open>paths\<close> in \<^verbatim>\<open>buildFolderCache\<close>; it has no suspension point.\<close>

fun scanPaths :: "host \<Rightarrow> ref \<Rightarrow> WorkspaceFolder \<Rightarrow> bool \<Rightarrow> Uri list \<Rightarrow> state \<Rightarrow> state" where
  "scanPaths h fCache fld setCacheBuilding [] st = st"
| "scanPaths h fCache fld setCacheBuilding (fPath # paths) st =
     (if cancel st then cancelInternal setCacheBuilding st
      else if \<not> isExcluded h (path fPath)
        then scanPaths h fCache fld setCacheBuilding paths
               (addItem fCache \<lparr>uri = fPath, folder = fld\<rparr> st)
        else scanPaths h fCache fld setCacheBuilding paths st)"

definition buildFolderCache ::
  "host \<Rightarrow> ref \<Rightarrow> WorkspaceFolder \<Rightarrow> string \<Rightarrow> string option \<Rightarrow> bool \<Rightarrow> state \<Rightarrow> state" where
  "buildFolderCache h fCache fld taskType fileGlob setCacheBuilding st =
     (if map_of (providersExternal h) taskType = None
      then scanPaths h fCache fld setCacheBuilding (findFiles h fld fileGlob) (yield h st)
      else yield h st)"

definition buildFolderCaches ::
  "host \<Rightarrow> ref \<Rightarrow> string \<Rightarrow> string option \<Rightarrow> bool \<Rightarrow> state \<Rightarrow> state" where
  "buildFolderCaches h fCache taskType fileGlob setCacheBuilding st =
     (case workspaceFolders h of
        None \<Rightarrow> st
      | Some folders \<Rightarrow>
          fold (\<lambda>fld. buildFolderCache h fCache fld taskType fileGlob setCacheBuilding) folders st)"

text \<open>
  The polling loops.  They run for as long as the flags stay set, so they are partial:
  \<open>None\<close> is the loop that never ends.
\<close>

partial_function (option) waitForCache :: "host \<Rightarrow> state \<Rightarrow> state option" where
  "waitForCache h st =
     (if cacheBuilding st = True \<or> folderCaching st = True
      then waitForCache h (yield h st) else Some st)"

partial_function (option) waitForFolderCaching :: "host \<Rightarrow> state \<Rightarrow> state option" where
  "waitForFolderCaching h st =
     (if folderCaching st = True then waitForFolderCaching h (yield h st) else Some st)"

definition buildCache ::
  "host \<Rightarrow> string \<Rightarrow> string option \<Rightarrow> WorkspaceFolder option \<Rightarrow> bool \<Rightarrow> state \<Rightarrow> state option" where
  "buildCache h taskType fileGlob wsFolder setCacheBuilding st =
     (let taskAlias = getTaskProviderType h taskType;
          (fCache, st1) = ensureSet taskAlias st
      in do {
        st2 \<leftarrow> (if setCacheBuilding
                then map_option (\<lambda>s. s\<lparr>cacheBuilding := True\<rparr>) (waitForCache h st1)
                else Some st1);
        let st3 = (if truthy (taskGlobs st2 taskType) \<and> taskAlias \<noteq> ''script''
                      \<and> taskGlobs st2 taskType \<noteq> fileGlob
                   then st2\<lparr>heap := (heap st2)(fCache := [])\<rparr> else st2);
        let st4 = st3\<lparr>taskGlobs := (taskGlobs st3)(taskType := fileGlob)\<rparr>;
        let st5 = (case wsFolder of
                     None \<Rightarrow> buildFolderCaches h fCache taskType fileGlob setCacheBuilding st4
                   | Some fld \<Rightarrow> buildFolderCache h fCache fld taskType fileGlob setCacheBuilding st4);
        Some (if setCacheBuilding then st5\<lparr>cancel := False, cacheBuilding := False\<rparr> else st5)
      })"

text \<open>The glob that \<^verbatim>\<open>addFolderToCache\<close> computes for a provider name.\<close>

definition providerGlob :: "host \<Rightarrow> string \<Rightarrow> string option" where
  "providerGlob h provName =
     (let glob =
        (if \<not> isWatchTask h provName
         then (case (case providers h (getTaskProviderType h provName) of
                       Some p \<Rightarrow> Some p
                     | None \<Rightarrow> map_of (providersExternal h) provName) of
                 None \<Rightarrow> None
               | Some p \<Rightarrow> p provName)
         else None)
      in if \<not> truthy glob then getGlobPattern h provName else glob)"

text \<open>The loop over \<^verbatim>\<open>taskProviders\<close> in \<^verbatim>\<open>addFolderToCache\<close>.\<close>

fun scanProviders :: "host \<Rightarrow> WorkspaceFolder option \<Rightarrow> string list \<Rightarrow> state \<Rightarrow> state option" where
  "scanProviders h fld [] st = Some st"
| "scanProviders h fld (provName # rest) st =
     (if \<not> cancel st \<and> (map_of (providersExternal h) provName \<noteq> None \<or> enabled h provName)
      then do {
        st' \<leftarrow> buildCache h provName (providerGlob h provName) fld False st;
        scanProviders h fld rest st'
      }
      else scanProviders h fld rest st)"

definition addFolderToCache :: "host \<Rightarrow> WorkspaceFolder option \<Rightarrow> state \<Rightarrow> state option" where
  "addFolderToCache h fld st =
     do {
       st1 \<leftarrow> waitForCache h st;
       st2 \<leftarrow> waitForFolderCaching h st1;
       let st3 = st2\<lparr>folderCaching := True, cacheBuilding := True\<rparr>;
       st4 \<leftarrow> scanProviders h fld (sort (getTaskTypes h @ map fst (providersExternal h))) st3;
       Some (st4\<lparr>cacheBuilding := False, folderCaching := False, cancel := False\<rparr>)
     }"

definition addFileToCache :: "host \<Rightarrow> string \<Rightarrow> Uri \<Rightarrow> state \<Rightarrow> state" where
  "addFileToCache h taskAlias u st =
     (let (taskCache, st1) = ensureSet taskAlias st
      in case getWorkspaceFolder h u of
           None \<Rightarrow> st1
         | Some wsf \<Rightarrow> addItem taskCache \<lparr>uri = u, folder = wsf\<rparr> st1)"

text \<open>
  \<^verbatim>\<open>cancelBuildCache(wait?)\<close>: the waiting loop counts \<^verbatim>\<open>waitCount\<close> down from 20;
  an omitted \<^verbatim>\<open>wait\<close> is \<open>None\<close> and counts as false.
\<close>

fun cancelWait :: "host \<Rightarrow> bool option \<Rightarrow> nat \<Rightarrow> state \<Rightarrow> state" where
  "cancelWait h wait 0 st = st"
| "cancelWait h wait (Suc waitCount) st =
     (if wait = Some True \<and> cacheBuilding st
      then cancelWait h wait waitCount (yield h st) else st)"

definition cancelBuildCache :: "host \<Rightarrow> bool option \<Rightarrow> state \<Rightarrow> state" where
  "cancelBuildCache h wait st =
     (if \<not> cacheBuilding st then st else cancelWait h wait 20 (st\<lparr>cancel := True\<rparr>))"

definition isCachingBusy :: "state \<Rightarrow> bool" where
  "isCachingBusy st = (cacheBuilding st = True \<or> folderCaching st = True)"

definition rebuildCache :: "host \<Rightarrow> state \<Rightarrow> state option" where
  "rebuildCache h st = addFolderToCache h None (st\<lparr>filesCache := Map.empty\<rparr>)"

definition removeFileFromCache :: "string \<Rightarrow> Uri \<Rightarrow> state \<Rightarrow> state" where
  "removeFileFromCache taskAlias u st =
     (case filesCache st taskAlias of
        None \<Rightarrow> st
      | Some itemCache \<Rightarrow>
          (let toRemove = filter (\<lambda>item. fsPath (uri (snd item)) = fsPath u) (heap st itemCache)
           in st\<lparr>heap := (heap st)(itemCache := fold set_delete toRemove (heap st itemCache))\<rparr>))"

section \<open>The second cache module\<close>

definition addFileToCache_alt :: "host \<Rightarrow> string \<Rightarrow> Uri \<Rightarrow> alt_state \<Rightarrow> alt_state" where
  "addFileToCache_alt h taskAlias u st =
     (let st1 = (case alt_filesCache st taskAlias of
                   Some r \<Rightarrow> st
                 | None \<Rightarrow> st\<lparr>alt_filesCache := (alt_filesCache st)(taskAlias \<mapsto> alt_nextRef st),
                              alt_heap := (alt_heap st)(alt_nextRef st := []),
                              alt_nextRef := Suc (alt_nextRef st)\<rparr>)
      in case alt_filesCache st1 taskAlias of
           None \<Rightarrow> st1
         | Some taskCache \<Rightarrow>
             st1\<lparr>alt_heap := (alt_heap st1)(taskCache :=
                    set_add (alt_nextRef st1, \<lparr>alt_uri = u, alt_folder = getWorkspaceFolder h u\<rparr>)
                      (alt_heap st1 taskCache)),
                 alt_nextRef := Suc (alt_nextRef st1)\<rparr>)"

definition removeFileFromCache_alt :: "string \<Rightarrow> Uri \<Rightarrow> alt_state \<Rightarrow> alt_state" where
  "removeFileFromCache_alt taskAlias u st =
     (case alt_filesCache st taskAlias of
        None \<Rightarrow> st
      | Some taskCache \<Rightarrow>
          (let toRemove = filter (\<lambda>item. fsPath (alt_uri (snd item)) = fsPath u)
                            (alt_heap st taskCache)
           in if length toRemove > 0
              then st\<lparr>alt_heap := (alt_heap st)(taskCache :=
                        fold set_delete toRemove (alt_heap st taskCache))\<rparr>
              else st))"

section \<open>The pipenv provider\<close>

definition getDefaultDefinition ::
  "host \<Rightarrow> string \<Rightarrow> WorkspaceFolder \<Rightarrow> Uri \<Rightarrow> TaskExplorerDefinition" where
  "getDefaultDefinition h tgt fld u =
     \<lparr>defType = ''pipenv'', defScript = tgt, defTarget = tgt,
      defPath = getRelativePath h fld u, defFileName = basename h (path u),
      defUri = Some u\<rparr>"

definition createTask :: "host \<Rightarrow> string \<Rightarrow> string \<Rightarrow> WorkspaceFolder \<Rightarrow> Uri \<Rightarrow> Task" where
  "createTask h tgt cmd fld u =
     (let pipenv = pathToPipenv h;
          pythonPath = (if pipenv = ''pipenv''
                        then Some (case pythonPathSetting h of None \<Rightarrow> ''python'' | Some p \<Rightarrow> p)
                        else None);
          def = getDefaultDefinition h tgt fld u;
          cwd = dirname h (fsPath u);
          args = (if truthy pythonPath then [''-m'', ''pipenv''] @ [''run'', tgt]
                  else [''run'', tgt]);
          exec = \<lparr>execCommand = (case pythonPath of None \<Rightarrow> pipenv | Some p \<Rightarrow> p),
                  execArgs = args, execCwd = cwd\<rparr>
      in \<lparr>taskDefinition = def, taskScope = fld, taskName = tgt, taskSource = ''pipenv'',
          taskExecution = exec, taskProblemMatchers = [''$msCompile''], taskGroup = None\<rparr>)"

text \<open>
  \<^verbatim>\<open>Object.entries\<close> does not list the properties of an object in the order of their
  creation: the keys that are array indices (the decimal numerals without a leading zero of
  the numbers up to \<open>2\<^sup>3\<^sup>2 - 2\<close>) come first, in ascending numeric order, and the other
  keys follow in the order of their creation.
\<close>

definition isDigit :: "char \<Rightarrow> bool" where
  "isDigit c = (CHR ''0'' \<le> c \<and> c \<le> CHR ''9'')"

definition digitsValue :: "string \<Rightarrow> nat" where
  "digitsValue s = fold (\<lambda>c n. 10 * n + (of_char c - 48)) s 0"

definition isArrayIndex :: "string \<Rightarrow> bool" where
  "isArrayIndex s =
     (s \<noteq> [] \<and> list_all isDigit s \<and> (s = ''0'' \<or> hd s \<noteq> CHR ''0'')
      \<and> digitsValue s < 4294967295)"

definition objectEntries :: "(string \<times> 'v) list \<Rightarrow> (string \<times> 'v) list" where
  "objectEntries props =
     sort_key (digitsValue \<circ> fst) (filter (isArrayIndex \<circ> fst) props)
     @ filter (\<lambda>p. \<not> isArrayIndex (fst p)) props"

definition findTargets :: "host \<Rightarrow> string \<Rightarrow> string list" where
  "findTargets h fsp =
     (let contents = readFileSync h fsp
      in map fst (objectEntries
                    (case tomlScripts h contents of None \<Rightarrow> [] | Some props \<Rightarrow> props)))"

definition readUriTasks :: "host \<Rightarrow> Uri \<Rightarrow> Task list" where
  "readUriTasks h u =
     (case getWorkspaceFolder h u of
        None \<Rightarrow> []
      | Some fld \<Rightarrow>
          map (\<lambda>s. (createTask h s s fld u)\<lparr>taskGroup := Some Build\<rparr>)
            (findTargets h (fsPath u)))"

text \<open>
  The loop of \<^verbatim>\<open>PipenvTaskProvider.readTasks\<close> over the set of the key \<^verbatim>\<open>pipenv\<close>,
  with the set \<^verbatim>\<open>visitedFiles\<close> and the array \<^verbatim>\<open>allTasks\<close>.
\<close>

fun readFiles_pipenv ::
  "host \<Rightarrow> (ref \<times> ICacheItem) list \<Rightarrow> string list \<Rightarrow> Task list \<Rightarrow> Task list" where
  "readFiles_pipenv h [] visitedFiles allTasks = allTasks"
| "readFiles_pipenv h (obj # rest) visitedFiles allTasks =
     (if \<not> isExcluded h (path (uri (snd obj))) \<and> fsPath (uri (snd obj)) \<notin> set visitedFiles
      then readFiles_pipenv h rest (visitedFiles @ [fsPath (uri (snd obj))])
             (allTasks @ readUriTasks h (uri (snd obj)))
      else readFiles_pipenv h rest visitedFiles allTasks)"

definition readTasks_pipenv :: "host \<Rightarrow> state \<Rightarrow> Task list" where
  "readTasks_pipenv h st =
     (case filesCache st ''pipenv'' of
        None \<Rightarrow> []
      | Some paths \<Rightarrow>
          if workspaceFolders h \<noteq> None then readFiles_pipenv h (heap st paths) [] [] else [])"

section \<open>The provider base class\<close>

text \<open>
  \<^verbatim>\<open>readUriTasks\<close> is abstract in \<^verbatim>\<open>TaskExplorerProvider\<close>; the functions of the base
  class take it as the argument \<open>rd\<close>.
\<close>

fun readFiles ::
  "host \<Rightarrow> (Uri \<Rightarrow> Task list) \<Rightarrow> (ref \<times> ICacheItem) list \<Rightarrow> string list \<Rightarrow> Task list
     \<Rightarrow> Task list" where
  "readFiles h rd [] visitedFiles allTasks = allTasks"
| "readFiles h rd (fObj # rest) visitedFiles allTasks =
     (if \<not> isExcluded h (path (uri (snd fObj))) \<and> fsPath (uri (snd fObj)) \<notin> set visitedFiles
         \<and> pathExists h (fsPath (uri (snd fObj)))
      then readFiles h rd rest (visitedFiles @ [fsPath (uri (snd fObj))])
             (allTasks @ rd (uri (snd fObj)))
      else readFiles h rd rest visitedFiles allTasks)"

definition readTasks :: "host \<Rightarrow> (Uri \<Rightarrow> Task list) \<Rightarrow> provider \<Rightarrow> state \<Rightarrow> Task list" where
  "readTasks h rd p st =
     (case filesCache st (providerName p) of
        None \<Rightarrow> []
      | Some paths \<Rightarrow>
          if enabled h (providerName p) then readFiles h rd (heap st paths) [] [] else [])"

text \<open>
  \<^verbatim>\<open>provideTasks\<close> calls \<^verbatim>\<open>this.readTasks\<close>, a method that a provider class may
  override: it is the argument \<open>readTasks'\<close>.  For a class that does not override it, it
  is \<open>readTasks h rd\<close> of the base class; for \<^verbatim>\<open>PipenvTaskProvider\<close> it is the override
  \<open>readTasks_pipenv\<close>, and \<^verbatim>\<open>this.readUriTasks\<close> is \<open>readUriTasks\<close>.
\<close>

definition provideTasks ::
  "(provider \<Rightarrow> state \<Rightarrow> Task list) \<Rightarrow> provider \<Rightarrow> state \<Rightarrow> Task list \<times> provider" where
  "provideTasks readTasks' p st =
     (case cachedTasks p of
        None \<Rightarrow> (let tasks = readTasks' p st in (tasks, p\<lparr>cachedTasks := Some tasks\<rparr>))
      | Some tasks \<Rightarrow> (tasks, p))"

definition provideTasks_pipenv :: "host \<Rightarrow> provider \<Rightarrow> state \<Rightarrow> Task list \<times> provider" where
  "provideTasks_pipenv h p st = provideTasks (\<lambda>_. readTasks_pipenv h) p st"

definition provideTasks_base ::
  "host \<Rightarrow> (Uri \<Rightarrow> Task list) \<Rightarrow> provider \<Rightarrow> state \<Rightarrow> Task list \<times> provider" where
  "provideTasks_base h rd p st = provideTasks (readTasks h rd) p st"

text \<open>
  The branch of \<^verbatim>\<open>invalidate\<close> for a given uri and a defined \<^verbatim>\<open>cachedTasks\<close>: the new
  value of \<^verbatim>\<open>cachedTasks\<close> and the module state.
\<close>

definition refreshUri ::
  "host \<Rightarrow> (Uri \<Rightarrow> Task list) \<Rightarrow> string \<Rightarrow> Uri \<Rightarrow> Task list \<Rightarrow> state
     \<Rightarrow> Task list option \<times> state" where
  "refreshUri h rd pname u tasks st =
     (let pathExists' = pathExists h (fsPath u);
          rmvTasks = filter (\<lambda>each. case defUri (taskDefinition each) of
                                       None \<Rightarrow> False
                                     | Some du \<Rightarrow> fsPath du = fsPath u \<or> \<not> pathExists h (fsPath du))
                       tasks;
          tasks1 = fold (\<lambda>each ts. removeFromArray h ts each) rmvTasks tasks;
          (tasks2, st2) =
            (if pathExists' \<and> existsInArray h (excludeSetting h) (path u) = None
             then (tasks1 @ rd u, st)
             else if \<not> pathExists' then (tasks1, removeFileFromCache pname u st)
             else (tasks1, st))
      in (if length tasks2 > 0 then Some tasks2 else None, st2))"

function invalidate ::
  "host \<Rightarrow> (Uri \<Rightarrow> Task list) \<Rightarrow> Uri option \<Rightarrow> provider \<Rightarrow> state \<Rightarrow> provider \<times> state" where
  "invalidate h rd u p st =
     (if u \<noteq> None \<and> invalidating p
      then (p\<lparr>queue := queue p @ (case u of None \<Rightarrow> [] | Some x \<Rightarrow> [x])\<rparr>, st)
      else
        (let res = (case cachedTasks p of
                      None \<Rightarrow> (None, st)
                    | Some tasks \<Rightarrow>
                        (case u of
                           None \<Rightarrow> (None, st)
                         | Some x \<Rightarrow> refreshUri h rd (providerName p) x tasks st));
             p1 = p\<lparr>cachedTasks := fst res, invalidating := False\<rparr>
         in case queue p of
              [] \<Rightarrow> (p1, snd res)
            | q # qs \<Rightarrow> invalidate h rd (Some q) (p1\<lparr>queue := qs\<rparr>) (snd res)))"
  by pat_completeness auto
termination
  by (relation "measure (\<lambda>(h, rd, u, p, st). length (queue p))") auto

declare invalidate.simps [simp del]

section \<open>Notions used in the statements\<close>

text \<open>The module state when the extension is loaded.\<close>

definition initial_state :: state where
  "initial_state =
     \<lparr>cacheBuilding = False, folderCaching = False, cancel = False,
      taskGlobs = (\<lambda>_. None), filesCache = Map.empty, heap = (\<lambda>_. []), nextRef = 0\<rparr>"

definition alt_initial_state :: alt_state where
  "alt_initial_state =
     \<lparr>alt_cacheBuilding = False, alt_cancel = False,
      alt_filesCache = Map.empty, alt_heap = (\<lambda>_. []), alt_nextRef = 0\<rparr>"

text \<open>
  The \<^verbatim>\<open>Set\<close> stored under a key (\<open>None\<close> when the map has no entry), its members
  without their addresses, and their URIs.
\<close>

definition cacheSet :: "state \<Rightarrow> string \<Rightarrow> (ref \<times> ICacheItem) list option" where
  "cacheSet st k = map_option (heap st) (filesCache st k)"

definition members :: "state \<Rightarrow> string \<Rightarrow> ICacheItem list" where
  "members st k = (case cacheSet st k of None \<Rightarrow> [] | Some xs \<Rightarrow> map snd xs)"

definition cacheUris :: "state \<Rightarrow> string \<Rightarrow> Uri list" where
  "cacheUris st k = (case cacheSet st k of None \<Rightarrow> [] | Some xs \<Rightarrow> map (uri \<circ> snd) xs)"

definition alt_cacheSet :: "alt_state \<Rightarrow> string \<Rightarrow> (ref \<times> alt_item) list option" where
  "alt_cacheSet st k = map_option (alt_heap st) (alt_filesCache st k)"

text \<open>
  The allocation discipline of the object store: a \<^verbatim>\<open>Set\<close> holds an object at most
  once, every allocated address is below \<open>nextRef\<close>, and two keys of the map never share
  a \<^verbatim>\<open>Set\<close> object (each is created by its own \<^verbatim>\<open>new Set()\<close>).
\<close>

definition wf :: "state \<Rightarrow> bool" where
  "wf st =
     ((\<forall>r. distinct (map fst (heap st r)) \<and> (\<forall>x \<in> set (heap st r). fst x < nextRef st))
      \<and> inj_on (filesCache st) (dom (filesCache st))
      \<and> (\<forall>k r. filesCache st k = Some r \<longrightarrow> r < nextRef st))"

definition alt_wf :: "alt_state \<Rightarrow> bool" where
  "alt_wf st =
     ((\<forall>r. distinct (map fst (alt_heap st r))
           \<and> (\<forall>x \<in> set (alt_heap st r). fst x < alt_nextRef st))
      \<and> inj_on (alt_filesCache st) (dom (alt_filesCache st))
      \<and> (\<forall>k r. alt_filesCache st k = Some r \<longrightarrow> r < alt_nextRef st))"

text \<open>Both busy flags are set.\<close>

definition flagsSet :: "state \<Rightarrow> bool" where
  "flagsSet st = (cacheBuilding st \<and> folderCaching st)"

text \<open>
  The URIs that a \<^verbatim>\<open>readTasks\<close> loop hands to \<^verbatim>\<open>readUriTasks\<close>, in order: \<open>ok\<close> is
  the test on the file, \<open>seen\<close> the paths visited so far.
\<close>

fun visits :: "(Uri \<Rightarrow> bool) \<Rightarrow> string list \<Rightarrow> Uri list \<Rightarrow> Uri list" where
  "visits ok seen [] = []"
| "visits ok seen (u # us) =
     (if ok u \<and> fsPath u \<notin> set seen then u # visits ok (seen @ [fsPath u]) us
      else visits ok seen us)"

text \<open>
  What the map holds: for each key, the items of its set without their addresses.  Two
  states are \<open>alike\<close> when they agree on the flags, on \<open>taskGlobs\<close> and on what the map
  holds (and both follow the allocation discipline); they may differ in the addresses and
  in the objects that the map no longer reaches.  \<open>flagsOnly\<close> describes a host whose
  other activities, while a function of the module is suspended, write nothing but the
  flags, and decide what to write from the flags and \<open>taskGlobs\<close> alone.
\<close>

definition contents :: "state \<Rightarrow> string \<Rightarrow> ICacheItem list option" where
  "contents st k = map_option (map snd) (cacheSet st k)"

definition sameControl :: "state \<Rightarrow> state \<Rightarrow> bool" where
  "sameControl s t =
     (cacheBuilding s = cacheBuilding t \<and> folderCaching s = folderCaching t
      \<and> cancel s = cancel t \<and> taskGlobs s = taskGlobs t)"

definition flagsOnly :: "host \<Rightarrow> bool" where
  "flagsOnly h =
     ((\<forall>s. filesCache (yield h s) = filesCache s \<and> heap (yield h s) = heap s
           \<and> nextRef (yield h s) = nextRef s \<and> taskGlobs (yield h s) = taskGlobs s)
      \<and> (\<forall>s t. sameControl s t \<longrightarrow> sameControl (yield h s) (yield h t)))"

definition alike :: "state \<Rightarrow> state \<Rightarrow> bool" where
  "alike s t = (sameControl s t \<and> wf s \<and> wf t \<and> contents s = contents t)"

definition alikeAt :: "string \<Rightarrow> ref \<Rightarrow> ref \<Rightarrow> state \<Rightarrow> state \<Rightarrow> bool" where
  "alikeAt k r1 r2 s t = (alike s t \<and> filesCache s k = Some r1 \<and> filesCache t k = Some r2)"

subsection \<open>A small workspace\<close>

text \<open>
  One workspace folder \<^verbatim>\<open>/proj\<close> with a Pipfile that has the scripts \<^verbatim>\<open>test\<close> and
  \<^verbatim>\<open>lint\<close>, and a file outside of the workspace.
\<close>

definition projFolder :: WorkspaceFolder where
  "projFolder = \<lparr>name = ''proj'', rootUri = \<lparr>path = ''/proj'', fsPath = ''/proj''\<rparr>\<rparr>"

definition pipfileUri :: Uri where
  "pipfileUri = \<lparr>path = ''/proj/Pipfile'', fsPath = ''/proj/Pipfile''\<rparr>"

definition strayUri :: Uri where
  "strayUri = \<lparr>path = ''/tmp/Pipfile'', fsPath = ''/tmp/Pipfile''\<rparr>"

definition sample_host :: host where
  "sample_host =
     \<lparr>getTaskTypes = [''pipenv''],
      providersExternal = [],
      providers = Map.empty,
      enabled = (\<lambda>_. True),
      isWatchTask = (\<lambda>_. False),
      getTaskProviderType = (\<lambda>t. t),
      getGlobPattern = (\<lambda>_. Some ''**/Pipfile''),
      workspaceFolders = Some [projFolder],
      getWorkspaceFolder = (\<lambda>u. if u = pipfileUri then Some projFolder else None),
      findFiles = (\<lambda>_ _. [pipfileUri]),
      isExcluded = (\<lambda>_. False),
      pathExists = (\<lambda>_. True),
      yield = (\<lambda>s. s),
      pathToPipenv = ''pipenv'',
      pythonPathSetting = None,
      dirname = (\<lambda>_. ''/proj''),
      basename = (\<lambda>_. ''Pipfile''),
      getRelativePath = (\<lambda>_ _. []),
      readFileSync = (\<lambda>_. ''[scripts]''),
      tomlScripts = (\<lambda>_. Some [(''test'', ''pytest''), (''lint'', ''flake8'')]),
      removeFromArray = (\<lambda>ts t. remove1 t ts),
      existsInArray = (\<lambda>_ _. None),
      excludeSetting = []\<rparr>"

text \<open>A cache whose set for \<^verbatim>\<open>pipenv\<close> holds two item objects for the same Pipfile.\<close>

definition dup_state :: state where
  "dup_state =
     \<lparr>cacheBuilding = False, folderCaching = False, cancel = False,
      taskGlobs = (\<lambda>_. None), filesCache = [''pipenv'' \<mapsto> 0],
      heap = (\<lambda>_. [])(0 := [(1, \<lparr>uri = pipfileUri, folder = projFolder\<rparr>),
                             (2, \<lparr>uri = pipfileUri, folder = projFolder\<rparr>)]),
      nextRef = 3\<rparr>"

definition alt_dup_state :: alt_state where
  "alt_dup_state =
     \<lparr>alt_cacheBuilding = False, alt_cancel = False,
      alt_filesCache = [''pipenv'' \<mapsto> 0],
      alt_heap = (\<lambda>_. [])(0 := [(1, \<lparr>alt_uri = pipfileUri, alt_folder = Some projFolder\<rparr>),
                                 (2, \<lparr>alt_uri = strayUri, alt_folder = None\<rparr>)]),
      alt_nextRef = 3\<rparr>"

section \<open>The object store\<close>

lemma wf_distinct: "wf st \<Longrightarrow> distinct (map fst (heap st r))"
  by (simp add: wf_def)

lemma wf_bound: "wf st \<Longrightarrow> x \<in> set (heap st r) \<Longrightarrow> fst x < nextRef st"
  by (simp add: wf_def)

lemma wf_inj: "wf st \<Longrightarrow> inj_on (filesCache st) (dom (filesCache st))"
  by (simp add: wf_def)

lemma wf_keys: "wf st \<Longrightarrow> filesCache st k = Some r \<Longrightarrow> r < nextRef st"
  by (simp add: wf_def)

lemma wfI:
  assumes "\<And>r. distinct (map fst (heap st r))"
    and "\<And>r x. x \<in> set (heap st r) \<Longrightarrow> fst x < nextRef st"
    and "inj_on (filesCache st) (dom (filesCache st))"
    and "\<And>k r. filesCache st k = Some r \<Longrightarrow> r < nextRef st"
  shows "wf st"
  using assms by (simp add: wf_def)

lemma wf_fresh: "wf st \<Longrightarrow> nextRef st \<notin> fst ` set (heap st r)"
  using wf_bound[of st _ r] by fastforce

lemma wf_initial_state: "wf initial_state"
  by (simp add: wf_def initial_state_def)

lemma wf_dup_state: "wf dup_state"
  by (auto simp: wf_def dup_state_def inj_on_def dom_def)

lemma alt_wf_dup_state: "alt_wf alt_dup_state"
  by (auto simp: alt_wf_def alt_dup_state_def inj_on_def dom_def)

lemma wf_addItem:
  assumes "wf st"
  shows "wf (addItem r item st)"
proof (rule wfI)
  have f: "nextRef st \<notin> fst ` set (heap st r)" using wf_fresh[OF assms] .
  fix r'
  show "distinct (map fst (heap (addItem r item st) r'))"
    using wf_distinct[OF assms, of r'] f by (auto simp: addItem_def set_add_def)
next
  fix r' x
  assume "x \<in> set (heap (addItem r item st) r')"
  then show "fst x < nextRef (addItem r item st)"
    using wf_bound[OF assms, of x r']
    by (auto simp: addItem_def set_add_def less_Suc_eq split: if_splits)
next
  show "inj_on (filesCache (addItem r item st)) (dom (filesCache (addItem r item st)))"
    using wf_inj[OF assms] by (simp add: addItem_def)
next
  fix k r'
  assume "filesCache (addItem r item st) k = Some r'"
  then show "r' < nextRef (addItem r item st)"
    using wf_keys[OF assms, of k r'] by (simp add: addItem_def)
qed

lemma heap_addItem:
  "wf st \<Longrightarrow> heap (addItem r item st) = (heap st)(r := heap st r @ [(nextRef st, item)])"
  using wf_fresh[of st r] by (simp add: addItem_def set_add_def)

lemma inj_on_fresh:
  assumes "inj_on m (dom m)" and "m k = None" and "\<forall>k' r'. m k' = Some r' \<longrightarrow> r' \<noteq> r"
  shows "inj_on (m(k \<mapsto> r)) (dom (m(k \<mapsto> r)))"
proof (rule inj_onI)
  fix x y
  assume x: "x \<in> dom (m(k \<mapsto> r))" and y: "y \<in> dom (m(k \<mapsto> r))"
    and e: "(m(k \<mapsto> r)) x = (m(k \<mapsto> r)) y"
  show "x = y"
  proof (cases "x = k")
    case True
    then have "(m(k \<mapsto> r)) y = Some r" using e by simp
    then show ?thesis using True assms(3) by (cases "y = k") auto
  next
    case False
    then have mx: "m x = (m(k \<mapsto> r)) y" using e by simp
    show ?thesis
    proof (cases "y = k")
      case True
      then show ?thesis using mx assms(3) by auto
    next
      case ny: False
      then have "m x = m y" using mx by simp
      moreover have "x \<in> dom m" "y \<in> dom m" using x y False ny by auto
      ultimately show ?thesis using assms(1) by (meson inj_onD)
    qed
  qed
qed

lemma inj_other_key:
  "inj_on m (dom m) \<Longrightarrow> m k = Some r \<Longrightarrow> k' \<noteq> k \<Longrightarrow> m k' \<noteq> Some r"
  by (metis domI inj_onD)

lemma wf_ensureSet_new:
  assumes "wf st" and "filesCache st k = None"
  shows "wf (st\<lparr>filesCache := (filesCache st)(k \<mapsto> nextRef st),
               heap := (heap st)(nextRef st := []), nextRef := Suc (nextRef st)\<rparr>)"
    (is "wf ?s")
proof (rule wfI)
  fix r'
  show "distinct (map fst (heap ?s r'))" using wf_distinct[OF assms(1), of r'] by simp
next
  fix r' x
  assume "x \<in> set (heap ?s r')"
  then show "fst x < nextRef ?s"
    using wf_bound[OF assms(1), of x r'] by (auto simp: less_Suc_eq split: if_splits)
next
  have "inj_on ((filesCache st)(k \<mapsto> nextRef st)) (dom ((filesCache st)(k \<mapsto> nextRef st)))"
    using wf_inj[OF assms(1)] assms(2) wf_keys[OF assms(1)] by (intro inj_on_fresh) auto
  then show "inj_on (filesCache ?s) (dom (filesCache ?s))" by simp
next
  fix k' r'
  assume "filesCache ?s k' = Some r'"
  then show "r' < nextRef ?s"
    using wf_keys[OF assms(1), of k' r'] by (auto simp: less_Suc_eq split: if_splits)
qed

lemma wf_ensureSet:
  assumes "wf st" and "ensureSet k st = (r, s)"
  shows "wf s" and "filesCache s k = Some r"
    and "cacheSet s k = Some (case cacheSet st k of None \<Rightarrow> [] | Some xs \<Rightarrow> xs)"
    and "k' \<noteq> k \<Longrightarrow> cacheSet s k' = cacheSet st k'"
proof -
  show "filesCache s k = Some r"
    using assms(2) by (auto simp: ensureSet_def split: option.splits)
  show "cacheSet s k = Some (case cacheSet st k of None \<Rightarrow> [] | Some xs \<Rightarrow> xs)"
    using assms(2) by (auto simp: ensureSet_def cacheSet_def split: option.splits)
  show "k' \<noteq> k \<Longrightarrow> cacheSet s k' = cacheSet st k'"
    using assms(2) wf_keys[OF assms(1), of k']
    by (cases "filesCache st k'") (auto simp: ensureSet_def cacheSet_def split: option.splits)
  show "wf s"
  proof (cases "filesCache st k")
    case (Some a)
    then show ?thesis using assms by (simp add: ensureSet_def)
  next
    case None
    then have "s = st\<lparr>filesCache := (filesCache st)(k \<mapsto> nextRef st),
                      heap := (heap st)(nextRef st := []), nextRef := Suc (nextRef st)\<rparr>"
      using assms(2) by (auto simp: ensureSet_def)
    then show ?thesis using wf_ensureSet_new[OF assms(1) None] by simp
  qed
qed

lemma fold_set_delete: "fold set_delete ys zs = filter (\<lambda>z. fst z \<notin> fst ` set ys) zs"
  by (induction ys arbitrary: zs) (auto simp: set_delete_def intro: filter_cong)

lemma delete_matching:
  assumes "distinct (map fst xs)"
  shows "fold set_delete (filter P xs) xs = filter (\<lambda>x. \<not> P x) xs"
proof -
  have "(fst z \<notin> fst ` set (filter P xs)) = (\<not> P z)" if z: "z \<in> set xs" for z
  proof
    assume "fst z \<notin> fst ` set (filter P xs)"
    then show "\<not> P z" using z by force
  next
    assume np: "\<not> P z"
    show "fst z \<notin> fst ` set (filter P xs)"
    proof
      assume "fst z \<in> fst ` set (filter P xs)"
      then obtain y where y: "y \<in> set xs" "P y" "fst y = fst z" by auto
      then have "y = z" using assms z by (meson distinct_map inj_onD)
      then show False using y np by simp
    qed
  qed
  then show ?thesis unfolding fold_set_delete by (intro filter_cong) auto
qed

lemma wf_removeFileFromCache:
  assumes w: "wf st"
  shows "wf (removeFileFromCache k u st)"
proof (cases "filesCache st k")
  case None
  then show ?thesis using w by (simp add: removeFileFromCache_def)
next
  case (Some c)
  let ?st' = "removeFileFromCache k u st"
  have hp: "heap ?st' = (heap st)(c := filter (\<lambda>x. fsPath (uri (snd x)) \<noteq> fsPath u) (heap st c))"
    using Some by (simp add: removeFileFromCache_def Let_def delete_matching[OF wf_distinct[OF w]])
  have fc: "filesCache ?st' = filesCache st" "nextRef ?st' = nextRef st"
    using Some by (simp_all add: removeFileFromCache_def Let_def)
  show ?thesis
  proof (rule wfI)
    fix r
    show "distinct (map fst (heap ?st' r))"
      using wf_distinct[OF w, of r] by (auto simp: hp distinct_map_filter)
  next
    fix r x
    assume "x \<in> set (heap ?st' r)"
    then have "x \<in> set (heap st r)" by (auto simp: hp split: if_splits)
    then show "fst x < nextRef ?st'" using wf_bound[OF w] fc by simp
  next
    show "inj_on (filesCache ?st') (dom (filesCache ?st'))" using wf_inj[OF w] fc by simp
  next
    fix k' r
    assume "filesCache ?st' k' = Some r"
    then show "r < nextRef ?st'" using wf_keys[OF w, of k' r] fc by simp
  qed
qed

lemma wf_scanPaths: "wf st \<Longrightarrow> wf (scanPaths h r fld scb ps st)"
proof (induction ps arbitrary: st)
  case Nil
  then show ?case by simp
next
  case (Cons p ps)
  have "wf (cancelInternal scb st)" using Cons.prems by (simp add: cancelInternal_def wf_def)
  then show ?case using Cons by (simp add: wf_addItem)
qed

lemma scanPaths_appends:
  "wf st \<Longrightarrow> \<not> cancel st \<Longrightarrow>
     map snd (heap (scanPaths h r fld scb paths st) r)
       = map snd (heap st r)
         @ map (\<lambda>p. \<lparr>uri = p, folder = fld\<rparr>) (filter (\<lambda>p. \<not> isExcluded h (path p)) paths)"
proof (induction paths arbitrary: st)
  case Nil
  then show ?case by simp
next
  case (Cons p paths)
  show ?case
  proof (cases "isExcluded h (path p)")
    case True
    then show ?thesis using Cons by simp
  next
    case False
    let ?st1 = "addItem r \<lparr>uri = p, folder = fld\<rparr> st"
    have w: "wf ?st1" using wf_addItem[OF Cons.prems(1)] .
    have c: "\<not> cancel ?st1" using Cons.prems(2) by (simp add: addItem_def)
    have hp: "heap ?st1 r = heap st r @ [(nextRef st, \<lparr>uri = p, folder = fld\<rparr>)]"
      using heap_addItem[OF Cons.prems(1), of r] by simp
    show ?thesis using Cons.IH[OF w c] False Cons.prems(2) by (simp add: hp)
  qed
qed

section \<open>Adding and removing single files\<close>

lemma addFileToCache_with_folder:
  assumes "wf st" and "getWorkspaceFolder h u = Some wsf"
  shows "members (addFileToCache h k u st) k = members st k @ [\<lparr>uri = u, folder = wsf\<rparr>]"
    and "wf (addFileToCache h k u st)"
    and "k' \<noteq> k \<Longrightarrow> cacheSet (addFileToCache h k u st) k' = cacheSet st k'"
proof -
  obtain r s where e: "ensureSet k st = (r, s)" by (cases "ensureSet k st")
  note es = wf_ensureSet[OF assms(1) e]
  let ?item = "\<lparr>uri = u, folder = wsf\<rparr>"
  have a: "addFileToCache h k u st = addItem r ?item s"
    using e assms(2) by (simp add: addFileToCache_def)
  have fc: "filesCache (addItem r ?item s) = filesCache s" by (simp add: addItem_def)
  have hp: "heap (addItem r ?item s) = (heap s)(r := heap s r @ [(nextRef s, ?item)])"
    using heap_addItem[OF es(1)] .
  show "wf (addFileToCache h k u st)" unfolding a using wf_addItem[OF es(1)] .
  show "members (addFileToCache h k u st) k = members st k @ [?item]"
    unfolding a using es(2,3) by (auto simp: members_def cacheSet_def fc hp split: option.splits)
  show "cacheSet (addFileToCache h k u st) k' = cacheSet st k'" if n: "k' \<noteq> k"
  proof -
    have "filesCache s k' \<noteq> Some r" using inj_other_key[OF wf_inj[OF es(1)] es(2) n] .
    then have "cacheSet (addItem r ?item s) k' = cacheSet s k'"
      by (cases "filesCache s k'") (auto simp: cacheSet_def fc hp)
    then show ?thesis unfolding a using es(4)[OF n] by simp
  qed
qed

text \<open>
  \<^verbatim>\<open>addFileToCache\<close> of \<^verbatim>\<open>cache.ts\<close> for a uri outside of every workspace folder: the
  set of the key exists afterwards and no set has gained or lost a member.
\<close>

lemma addFileToCache_without_folder:
  assumes "wf st" and "getWorkspaceFolder h u = None"
  shows "members (addFileToCache h k u st) k' = members st k'"
    and "filesCache (addFileToCache h k u st) k \<noteq> None"
    and "wf (addFileToCache h k u st)"
proof -
  obtain r s where e: "ensureSet k st = (r, s)" by (cases "ensureSet k st")
  note es = wf_ensureSet[OF assms(1) e]
  have a: "addFileToCache h k u st = s"
    using e assms(2) by (simp add: addFileToCache_def)
  show "wf (addFileToCache h k u st)" unfolding a using es(1) .
  show "filesCache (addFileToCache h k u st) k \<noteq> None" unfolding a using es(2) by simp
  show "members (addFileToCache h k u st) k' = members st k'"
    unfolding a using es(3) es(4)[of k']
    by (cases "k' = k") (auto simp: members_def split: option.splits)
qed

text \<open>
  Claim C1, as the specification states it: the set stored under a key holds at most one
  item per URI string, so that adding a file whose URI is already present leaves the set
  unchanged.  The code does not do this.  Starting from the empty cache, adding the same
  Pipfile twice under the key \<^verbatim>\<open>pipenv\<close> leaves a set with two members that have the
  same URI.
\<close>

theorem addFileToCache_same_uri_twice:
  "cacheUris (addFileToCache sample_host ''pipenv'' pipfileUri initial_state) ''pipenv''
     = [pipfileUri]
   \<and> cacheUris (addFileToCache sample_host ''pipenv'' pipfileUri
                  (addFileToCache sample_host ''pipenv'' pipfileUri initial_state)) ''pipenv''
     = [pipfileUri, pipfileUri]"
  by (simp add: cacheUris_def cacheSet_def addFileToCache_def ensureSet_def addItem_def
      set_add_def sample_host_def initial_state_def)

text \<open>
  Claim C1, amended: the set stored under a key compares its items by object identity, not
  by URI string.  \<^verbatim>\<open>addFileToCache\<close> of a uri that has an owning workspace folder
  appends one new item for that uri and folder to the set of the key and keeps all earlier
  members, also when an item with the same URI is already present; and the loop of
  \<^verbatim>\<open>buildFolderCache\<close>, when it is not cancelled, appends one new item for every path
  of the file search that is not excluded.  What stays unique in a set is the item object
  (the allocation discipline is kept).
\<close>

theorem addFileToCache_appends_item:
  assumes "wf st" and "getWorkspaceFolder h u = Some wsf"
  shows "members (addFileToCache h k u st) k = members st k @ [\<lparr>uri = u, folder = wsf\<rparr>]
         \<and> length (members (addFileToCache h k u st) k) = Suc (length (members st k))
         \<and> wf (addFileToCache h k u st)
         \<and> (\<not> cancel st \<longrightarrow>
              map snd (heap (scanPaths h r fld scb paths st) r)
                = map snd (heap st r)
                  @ map (\<lambda>p. \<lparr>uri = p, folder = fld\<rparr>)
                      (filter (\<lambda>p. \<not> isExcluded h (path p)) paths))
         \<and> wf (scanPaths h r fld scb paths st)"
  using addFileToCache_with_folder(1,2)[OF assms] scanPaths_appends[OF assms(1)]
    wf_scanPaths[OF assms(1)]
  by simp

theorem addFileToCache_appends_item_witness:
  "wf dup_state \<and> getWorkspaceFolder sample_host pipfileUri = Some projFolder
   \<and> \<not> cancel dup_state
   \<and> pipfileUri \<in> set (cacheUris dup_state ''pipenv'')
   \<and> members (addFileToCache sample_host ''pipenv'' pipfileUri dup_state) ''pipenv''
       = members dup_state ''pipenv'' @ [\<lparr>uri = pipfileUri, folder = projFolder\<rparr>]
   \<and> length (members (addFileToCache sample_host ''pipenv'' pipfileUri dup_state) ''pipenv'') = 3
   \<and> map (uri \<circ> snd) (heap (scanPaths sample_host 0 projFolder False [pipfileUri] dup_state) 0)
       = [pipfileUri, pipfileUri, pipfileUri]"
proof -
  have g: "getWorkspaceFolder sample_host pipfileUri = Some projFolder"
    by (simp add: sample_host_def)
  have m: "length (members dup_state ''pipenv'') = 2"
    "pipfileUri \<in> set (cacheUris dup_state ''pipenv'')"
    by (simp_all add: members_def cacheUris_def cacheSet_def dup_state_def)
  have c: "\<not> cancel dup_state" by (simp add: dup_state_def)
  have e: "\<not> isExcluded sample_host (path pipfileUri)" by (simp add: sample_host_def)
  have h0: "map snd (heap dup_state 0)
              = [\<lparr>uri = pipfileUri, folder = projFolder\<rparr>, \<lparr>uri = pipfileUri, folder = projFolder\<rparr>]"
    by (simp add: dup_state_def)
  note t = addFileToCache_appends_item[OF wf_dup_state g, of "''pipenv''" 0 projFolder False
      "[pipfileUri]"]
  have "map snd (heap (scanPaths sample_host 0 projFolder False [pipfileUri] dup_state) 0)
          = [\<lparr>uri = pipfileUri, folder = projFolder\<rparr>, \<lparr>uri = pipfileUri, folder = projFolder\<rparr>,
             \<lparr>uri = pipfileUri, folder = projFolder\<rparr>]"
    using t c e h0 by simp
  then have "map uri (map snd
                (heap (scanPaths sample_host 0 projFolder False [pipfileUri] dup_state) 0))
          = [pipfileUri, pipfileUri, pipfileUri]"
    by (simp only: list.map ICacheItem.simps)
  then have s: "map (uri \<circ> snd)
                  (heap (scanPaths sample_host 0 projFolder False [pipfileUri] dup_state) 0)
          = [pipfileUri, pipfileUri, pipfileUri]"
    by (simp only: map_map)
  show ?thesis using t wf_dup_state g m c s by simp
qed

text \<open>
  Claim C6: \<^verbatim>\<open>addFileToCache\<close> inserts an item only when the uri has an owning workspace
  folder, and leaves the members of every set unchanged otherwise.  The function of
  \<^verbatim>\<open>cache.ts\<close> does so (lemma \<open>addFileToCache_without_folder\<close>); the function of
  the second cache module has no such test.  There, adding a file outside of every
  workspace folder to the empty cache stores an item whose folder is \<^verbatim>\<open>undefined\<close>.
\<close>

theorem addFileToCache_alt_stores_item_without_folder:
  "getWorkspaceFolder sample_host strayUri = None
   \<and> alt_cacheSet (addFileToCache_alt sample_host ''npm'' strayUri alt_initial_state) ''npm''
     = Some [(1, \<lparr>alt_uri = strayUri, alt_folder = None\<rparr>)]"
  by (simp add: alt_cacheSet_def addFileToCache_alt_def set_add_def sample_host_def
      alt_initial_state_def strayUri_def pipfileUri_def)

lemma removeFileFromCache_sets:
  assumes "wf st"
  shows "cacheSet (removeFileFromCache k u st) k =
           map_option (filter (\<lambda>x. fsPath (uri (snd x)) \<noteq> fsPath u)) (cacheSet st k)"
    and "k' \<noteq> k \<Longrightarrow> cacheSet (removeFileFromCache k u st) k' = cacheSet st k'"
    and "filesCache st k = None \<Longrightarrow> removeFileFromCache k u st = st"
    and "filesCache (removeFileFromCache k u st) = filesCache st"
proof -
  have d: "\<And>r. distinct (map fst (heap st r))" using assms by (simp add: wf_def)
  show "cacheSet (removeFileFromCache k u st) k =
           map_option (filter (\<lambda>x. fsPath (uri (snd x)) \<noteq> fsPath u)) (cacheSet st k)"
    by (simp add: removeFileFromCache_def cacheSet_def Let_def delete_matching[OF d]
        split: option.splits)
  show "filesCache st k = None \<Longrightarrow> removeFileFromCache k u st = st"
    by (simp add: removeFileFromCache_def)
  show "filesCache (removeFileFromCache k u st) = filesCache st"
    by (simp add: removeFileFromCache_def Let_def split: option.splits)
  show "k' \<noteq> k \<Longrightarrow> cacheSet (removeFileFromCache k u st) k' = cacheSet st k'"
    using inj_other_key[OF wf_inj[OF assms], of k _ k']
    by (cases "filesCache st k'")
      (auto simp: removeFileFromCache_def cacheSet_def Let_def split: option.splits)
qed

lemma removeFileFromCache_alt_sets:
  assumes "alt_wf st"
  shows "alt_cacheSet (removeFileFromCache_alt k u st) k =
           map_option (filter (\<lambda>x. fsPath (alt_uri (snd x)) \<noteq> fsPath u)) (alt_cacheSet st k)"
    and "k' \<noteq> k \<Longrightarrow> alt_cacheSet (removeFileFromCache_alt k u st) k' = alt_cacheSet st k'"
    and "alt_filesCache st k = None \<Longrightarrow> removeFileFromCache_alt k u st = st"
    and "alt_filesCache (removeFileFromCache_alt k u st) = alt_filesCache st"
proof -
  have d: "\<And>r. distinct (map fst (alt_heap st r))" using assms by (simp add: alt_wf_def)
  have i: "inj_on (alt_filesCache st) (dom (alt_filesCache st))"
    using assms by (simp add: alt_wf_def)
  have e: "filter (\<lambda>x. fsPath (alt_uri (snd x)) \<noteq> fsPath u) xs = xs"
    if "filter (\<lambda>item. fsPath (alt_uri (snd item)) = fsPath u) xs = []"
    for xs :: "(ref \<times> alt_item) list"
    using that by (simp add: filter_empty_conv)
  show "alt_cacheSet (removeFileFromCache_alt k u st) k =
           map_option (filter (\<lambda>x. fsPath (alt_uri (snd x)) \<noteq> fsPath u)) (alt_cacheSet st k)"
    by (simp add: removeFileFromCache_alt_def alt_cacheSet_def Let_def delete_matching[OF d] e
        split: option.splits)
  show "alt_filesCache st k = None \<Longrightarrow> removeFileFromCache_alt k u st = st"
    by (simp add: removeFileFromCache_alt_def)
  show "alt_filesCache (removeFileFromCache_alt k u st) = alt_filesCache st"
    by (simp add: removeFileFromCache_alt_def Let_def split: option.splits)
  show "k' \<noteq> k \<Longrightarrow> alt_cacheSet (removeFileFromCache_alt k u st) k' = alt_cacheSet st k'"
    using inj_other_key[OF i, of k _ k']
    by (cases "alt_filesCache st k'")
      (auto simp: removeFileFromCache_alt_def alt_cacheSet_def Let_def split: option.splits)
qed

text \<open>
  Claim C9: \<^verbatim>\<open>removeFileFromCache(taskAlias, uri)\<close> removes from the set stored under
  \<^verbatim>\<open>taskAlias\<close> exactly the items whose \<^verbatim>\<open>uri.fsPath\<close> equals that of the given uri:
  the items with another path stay, in their order; the sets under all other keys and the
  keys of the map are unchanged; and nothing changes at all when the key has no set.  This
  holds for the function of \<^verbatim>\<open>cache.ts\<close> and for the one of the second cache module.
\<close>

theorem removeFileFromCache_exact:
  assumes "wf st" and "alt_wf ast"
  shows "cacheSet (removeFileFromCache k u st) k =
           map_option (filter (\<lambda>x. fsPath (uri (snd x)) \<noteq> fsPath u)) (cacheSet st k)
       \<and> (\<forall>k'. k' \<noteq> k \<longrightarrow> cacheSet (removeFileFromCache k u st) k' = cacheSet st k')
       \<and> filesCache (removeFileFromCache k u st) = filesCache st
       \<and> (filesCache st k = None \<longrightarrow> removeFileFromCache k u st = st)
       \<and> alt_cacheSet (removeFileFromCache_alt k u ast) k =
           map_option (filter (\<lambda>x. fsPath (alt_uri (snd x)) \<noteq> fsPath u)) (alt_cacheSet ast k)
       \<and> (\<forall>k'. k' \<noteq> k \<longrightarrow> alt_cacheSet (removeFileFromCache_alt k u ast) k' = alt_cacheSet ast k')
       \<and> alt_filesCache (removeFileFromCache_alt k u ast) = alt_filesCache ast
       \<and> (alt_filesCache ast k = None \<longrightarrow> removeFileFromCache_alt k u ast = ast)"
  using removeFileFromCache_sets[OF assms(1), where k = k and u = u]
    removeFileFromCache_alt_sets[OF assms(2), where k = k and u = u]
  by simp

theorem removeFileFromCache_exact_witness:
  "wf dup_state \<and> alt_wf alt_dup_state
   \<and> cacheSet dup_state ''pipenv''
       = Some [(1, \<lparr>uri = pipfileUri, folder = projFolder\<rparr>),
               (2, \<lparr>uri = pipfileUri, folder = projFolder\<rparr>)]
   \<and> cacheSet (removeFileFromCache ''pipenv'' pipfileUri dup_state) ''pipenv'' = Some []
   \<and> filesCache dup_state ''npm'' = None
   \<and> removeFileFromCache ''npm'' pipfileUri dup_state = dup_state
   \<and> alt_cacheSet (removeFileFromCache_alt ''pipenv'' pipfileUri alt_dup_state) ''pipenv''
       = Some [(2, \<lparr>alt_uri = strayUri, alt_folder = None\<rparr>)]"
proof -
  have c: "cacheSet dup_state ''pipenv''
       = Some [(1, \<lparr>uri = pipfileUri, folder = projFolder\<rparr>),
               (2, \<lparr>uri = pipfileUri, folder = projFolder\<rparr>)]"
    "filesCache dup_state ''npm'' = None"
    "alt_cacheSet alt_dup_state ''pipenv''
       = Some [(1, \<lparr>alt_uri = pipfileUri, alt_folder = Some projFolder\<rparr>),
               (2, \<lparr>alt_uri = strayUri, alt_folder = None\<rparr>)]"
    by (simp_all add: cacheSet_def alt_cacheSet_def dup_state_def alt_dup_state_def)
  have p: "fsPath strayUri \<noteq> fsPath pipfileUri" by (simp add: strayUri_def pipfileUri_def)
  show ?thesis
    using removeFileFromCache_exact[OF wf_dup_state alt_wf_dup_state, of "''pipenv''" pipfileUri]
      removeFileFromCache_exact[OF wf_dup_state alt_wf_dup_state, of "''npm''" pipfileUri]
      wf_dup_state alt_wf_dup_state c p
    by simp
qed

section \<open>Polling and cancelling\<close>

lemma waitForCache_sound:
  "waitForCache h st = Some st' \<Longrightarrow>
     \<exists>n. st' = (yield h ^^ n) st \<and> \<not> isCachingBusy st'
         \<and> (\<forall>m<n. isCachingBusy ((yield h ^^ m) st))"
proof (induction rule: waitForCache.raw_induct[rotated 1, consumes 1])
  case (1 wfc h st st')
  show ?case
  proof (cases "isCachingBusy st")
    case True
    with 1(2) have "wfc h (yield h st) = Some st'" by (simp add: isCachingBusy_def)
    from 1(1)[OF this] obtain n where n: "st' = (yield h ^^ n) (yield h st)"
      "\<not> isCachingBusy st'" "\<forall>m<n. isCachingBusy ((yield h ^^ m) (yield h st))"
      by blast
    have "st' = (yield h ^^ Suc n) st" using n(1) by (simp add: funpow_swap1)
    moreover have "\<forall>m<Suc n. isCachingBusy ((yield h ^^ m) st)"
    proof (intro allI impI)
      fix m
      assume "m < Suc n"
      show "isCachingBusy ((yield h ^^ m) st)"
      proof (cases m)
        case 0
        then show ?thesis using True by simp
      next
        case (Suc j)
        then have "j < n" using \<open>m < Suc n\<close> by simp
        then show ?thesis using n(3) Suc by (simp add: funpow_swap1)
      qed
    qed
    ultimately show ?thesis using n(2) by blast
  next
    case False
    with 1(2) have "st' = st" by (simp add: isCachingBusy_def)
    then show ?thesis using False by (intro exI[of _ 0]) simp
  qed
qed

lemma waitForCache_complete:
  "\<not> isCachingBusy ((yield h ^^ n) st) \<Longrightarrow> (\<forall>m<n. isCachingBusy ((yield h ^^ m) st)) \<Longrightarrow>
     waitForCache h st = Some ((yield h ^^ n) st)"
proof (induction n arbitrary: st)
  case 0
  then show ?case by (subst waitForCache.simps) (simp add: isCachingBusy_def)
next
  case (Suc n)
  have b: "isCachingBusy st" using Suc.prems(2)[rule_format, of 0] by simp
  have 1: "\<not> isCachingBusy ((yield h ^^ n) (yield h st))"
    using Suc.prems(1) by (simp add: funpow_swap1)
  have 2: "\<forall>m<n. isCachingBusy ((yield h ^^ m) (yield h st))"
  proof (intro allI impI)
    fix m
    assume "m < n"
    then show "isCachingBusy ((yield h ^^ m) (yield h st))"
      using Suc.prems(2)[rule_format, of "Suc m"] by (simp add: funpow_swap1)
  qed
  from Suc.IH[OF 1 2] show ?case using b
    by (subst waitForCache.simps) (simp add: isCachingBusy_def funpow_swap1)
qed

text \<open>
  Claim C5: \<^verbatim>\<open>waitForCache\<close> is a polling loop.  When it returns, both
  \<^verbatim>\<open>cacheBuilding\<close> and \<^verbatim>\<open>folderCaching\<close> are false, and the state it returns in is
  the state it was called in after some number of sleeps, during each of which only the
  other activities (\<open>yield\<close>) have acted: the loop itself writes neither the cache nor the
  flags.  It sleeps again for as long as a flag is set, returns at the first sleep after
  which both are clear, and never returns when that does not happen.  (The length of a
  sleep, 100 ms, is not part of the model.)
\<close>

theorem waitForCache_returns_idle:
  "(waitForCache h st = Some st' \<longrightarrow>
      \<not> cacheBuilding st' \<and> \<not> folderCaching st'
      \<and> (\<exists>n. st' = (yield h ^^ n) st \<and> (\<forall>m<n. isCachingBusy ((yield h ^^ m) st))))
   \<and> (\<not> isCachingBusy ((yield h ^^ n) st) \<and> (\<forall>m<n. isCachingBusy ((yield h ^^ m) st)) \<longrightarrow>
        waitForCache h st = Some ((yield h ^^ n) st))
   \<and> ((\<forall>m. isCachingBusy ((yield h ^^ m) st)) \<longrightarrow> waitForCache h st = None)"
proof (intro conjI impI)
  assume a: "waitForCache h st = Some st'"
  from waitForCache_sound[OF a] obtain n where n: "st' = (yield h ^^ n) st"
    "\<not> isCachingBusy st'" "\<forall>m<n. isCachingBusy ((yield h ^^ m) st)" by blast
  show "\<not> cacheBuilding st'" "\<not> folderCaching st'" using n(2) by (simp_all add: isCachingBusy_def)
  show "\<exists>n. st' = (yield h ^^ n) st \<and> (\<forall>m<n. isCachingBusy ((yield h ^^ m) st))"
    using n(1,3) by blast
next
  assume "\<not> isCachingBusy ((yield h ^^ n) st) \<and> (\<forall>m<n. isCachingBusy ((yield h ^^ m) st))"
  then show "waitForCache h st = Some ((yield h ^^ n) st)"
    using waitForCache_complete by blast
next
  assume a: "\<forall>m. isCachingBusy ((yield h ^^ m) st)"
  show "waitForCache h st = None"
  proof (cases "waitForCache h st")
    case None
    then show ?thesis .
  next
    case (Some s)
    from waitForCache_sound[OF Some] a show ?thesis by auto
  qed
qed

theorem waitForCache_returns_idle_witness:
  "isCachingBusy (initial_state\<lparr>cacheBuilding := True\<rparr>)
   \<and> waitForCache (sample_host\<lparr>yield := (\<lambda>s. s\<lparr>cacheBuilding := False\<rparr>)\<rparr>)
       (initial_state\<lparr>cacheBuilding := True\<rparr>) = Some initial_state
   \<and> \<not> cacheBuilding initial_state \<and> \<not> folderCaching initial_state
   \<and> waitForCache sample_host (initial_state\<lparr>cacheBuilding := True\<rparr>) = None"
proof -
  let ?h = "sample_host\<lparr>yield := (\<lambda>s. s\<lparr>cacheBuilding := False\<rparr>)\<rparr>"
  let ?st = "initial_state\<lparr>cacheBuilding := True\<rparr>"
  have b: "isCachingBusy ?st" by (simp add: isCachingBusy_def)
  have y: "(yield ?h ^^ Suc 0) ?st = initial_state" by (simp add: initial_state_def)
  have i: "\<not> isCachingBusy initial_state" by (simp add: isCachingBusy_def initial_state_def)
  have p: "\<not> isCachingBusy ((yield ?h ^^ Suc 0) ?st)
           \<and> (\<forall>m<Suc 0. isCachingBusy ((yield ?h ^^ m) ?st))"
    unfolding y using b i by simp
  have "waitForCache ?h ?st = Some ((yield ?h ^^ Suc 0) ?st)"
    using waitForCache_returns_idle[of ?h ?st initial_state "Suc 0"] p by blast
  then have 1: "waitForCache ?h ?st = Some initial_state" unfolding y .
  have f: "\<not> cacheBuilding initial_state \<and> \<not> folderCaching initial_state"
    using waitForCache_returns_idle[of ?h ?st initial_state "Suc 0"] 1 by blast
  have id: "(yield sample_host ^^ m) ?st = ?st" for m
    by (induction m) (simp_all add: sample_host_def)
  have "\<forall>m. isCachingBusy ((yield sample_host ^^ m) ?st)" using b by (simp add: id)
  then have 2: "waitForCache sample_host ?st = None"
    using waitForCache_returns_idle[of sample_host ?st initial_state "Suc 0"] by blast
  show ?thesis using b 1 f 2 by simp
qed

lemma scanPaths_cancel:
  "cancel st \<Longrightarrow>
     scanPaths h fCache fld scb paths st = (if paths = [] then st else cancelInternal scb st)"
  by (cases paths) simp_all

lemma cancelWait_no_wait: "wait \<noteq> Some True \<Longrightarrow> cancelWait h wait n st = st"
  by (cases n) simp_all

text \<open>
  Claim C3: the scan can be cancelled.  When the cancel flag is set at a test of the loop
  of \<^verbatim>\<open>buildFolderCache\<close>, the loop ends there: the remaining paths are not added, the
  map and every set are as they were.  In \<^verbatim>\<open>buildFolderCache\<close> the flag is read after
  the file search has returned.  \<^verbatim>\<open>cancelBuildCache\<close> changes nothing, and so does not
  set the flag, when \<^verbatim>\<open>cacheBuilding\<close> is false; when a build is in progress and the
  caller does not wait, all it does is to set the flag.
\<close>

theorem cancel_stops_scan:
  "(cancel st \<longrightarrow>
      heap (scanPaths h fCache fld scb paths st) = heap st
      \<and> filesCache (scanPaths h fCache fld scb paths st) = filesCache st
      \<and> nextRef (scanPaths h fCache fld scb paths st) = nextRef st)
   \<and> (cancel (yield h st) \<longrightarrow>
      heap (buildFolderCache h fCache fld taskType fileGlob scb st) = heap (yield h st)
      \<and> filesCache (buildFolderCache h fCache fld taskType fileGlob scb st)
          = filesCache (yield h st))
   \<and> (\<not> cacheBuilding st' \<longrightarrow> cancelBuildCache h wait st' = st')
   \<and> (cacheBuilding st' \<and> wait \<noteq> Some True \<longrightarrow>
        cancelBuildCache h wait st' = st'\<lparr>cancel := True\<rparr>)"
proof (intro conjI impI)
  assume c: "cancel st"
  show "heap (scanPaths h fCache fld scb paths st) = heap st"
    "filesCache (scanPaths h fCache fld scb paths st) = filesCache st"
    "nextRef (scanPaths h fCache fld scb paths st) = nextRef st"
    by (simp_all add: scanPaths_cancel[OF c] cancelInternal_def)
next
  assume c: "cancel (yield h st)"
  show "heap (buildFolderCache h fCache fld taskType fileGlob scb st) = heap (yield h st)"
    "filesCache (buildFolderCache h fCache fld taskType fileGlob scb st) = filesCache (yield h st)"
    by (simp_all add: buildFolderCache_def scanPaths_cancel[OF c] cancelInternal_def)
next
  assume "\<not> cacheBuilding st'"
  then show "cancelBuildCache h wait st' = st'" by (simp add: cancelBuildCache_def)
next
  assume "cacheBuilding st' \<and> wait \<noteq> Some True"
  then show "cancelBuildCache h wait st' = st'\<lparr>cancel := True\<rparr>"
    by (simp add: cancelBuildCache_def cancelWait_no_wait)
qed

theorem cancel_stops_scan_witness:
  "cancel (initial_state\<lparr>cancel := True\<rparr>)
   \<and> findFiles sample_host projFolder (Some ''**/Pipfile'') = [pipfileUri]
   \<and> heap (buildFolderCache sample_host 0 projFolder ''pipenv'' (Some ''**/Pipfile'') False
            (initial_state\<lparr>cancel := True\<rparr>)) = heap (initial_state\<lparr>cancel := True\<rparr>)
   \<and> heap (scanPaths sample_host 0 projFolder False [pipfileUri]
            (initial_state\<lparr>cancel := True\<rparr>)) = heap (initial_state\<lparr>cancel := True\<rparr>)
   \<and> \<not> cacheBuilding initial_state
   \<and> cancelBuildCache sample_host (Some True) initial_state = initial_state
   \<and> cancel (cancelBuildCache sample_host None (initial_state\<lparr>cacheBuilding := True\<rparr>))"
proof -
  let ?st = "initial_state\<lparr>cancel := True\<rparr>"
  let ?busy = "initial_state\<lparr>cacheBuilding := True\<rparr>"
  have y: "yield sample_host ?st = ?st" by (simp add: sample_host_def)
  have ff: "findFiles sample_host projFolder (Some ''**/Pipfile'') = [pipfileUri]"
    by (simp add: sample_host_def)
  have c: "cancel ?st" by simp
  have cy: "cancel (yield sample_host ?st)" unfolding y by (rule c)
  have n: "\<not> cacheBuilding initial_state" by (simp add: initial_state_def)
  have bw: "cacheBuilding ?busy \<and> None \<noteq> Some True" by simp
  note t1 = cancel_stops_scan[of ?st sample_host 0 projFolder False "[pipfileUri]" "''pipenv''"
        "Some ''**/Pipfile''" initial_state "Some True"]
  note t2 = cancel_stops_scan[of ?st sample_host 0 projFolder False "[pipfileUri]" "''pipenv''"
        "Some ''**/Pipfile''" ?busy None]
  have 1: "heap (buildFolderCache sample_host 0 projFolder ''pipenv'' (Some ''**/Pipfile'') False ?st)
             = heap ?st"
    using t1 cy unfolding y by blast
  have 2: "heap (scanPaths sample_host 0 projFolder False [pipfileUri] ?st) = heap ?st"
    using t1 c by blast
  have 3: "cancelBuildCache sample_host (Some True) initial_state = initial_state"
    using t1 n by blast
  have "cancelBuildCache sample_host None ?busy = ?busy\<lparr>cancel := True\<rparr>"
    using t2 bw by blast
  then have 4: "cancel (cancelBuildCache sample_host None ?busy)" by simp
  show ?thesis using c ff 1 2 n 3 4 by simp
qed

section \<open>Scanning the workspace\<close>

lemma buildCache_no_flag_total: "\<exists>s. buildCache h t g f False st = Some s"
  by (simp add: buildCache_def Let_def split: prod.splits)

lemma scanProviders_total: "\<exists>s. scanProviders h fld ps st = Some s"
proof (induction ps arbitrary: st)
  case Nil
  show ?case by simp
next
  case (Cons p ps)
  obtain s where s: "buildCache h p (providerGlob h p) fld False st = Some s"
    using buildCache_no_flag_total by blast
  show ?case using Cons.IH[of s] Cons.IH[of st] s by simp
qed

lemma scanPaths_flags: "flagsSet st \<Longrightarrow> flagsSet (scanPaths h r fld False ps st)"
  by (induction ps arbitrary: st) (simp_all add: flagsSet_def cancelInternal_def addItem_def)

lemma buildFolderCache_flags:
  "(\<forall>s. flagsSet s \<longrightarrow> flagsSet (yield h s)) \<Longrightarrow> flagsSet st \<Longrightarrow>
     flagsSet (buildFolderCache h r fld t g False st)"
  by (simp add: buildFolderCache_def scanPaths_flags)

lemma fold_buildFolderCache_flags:
  "(\<forall>s. flagsSet s \<longrightarrow> flagsSet (yield h s)) \<Longrightarrow> flagsSet st \<Longrightarrow>
     flagsSet (fold (\<lambda>fld. buildFolderCache h r fld t g False) fs st)"
  by (induction fs arbitrary: st) (simp_all add: buildFolderCache_flags)

lemma ensureSet_flags: "ensureSet k st = (r, s) \<Longrightarrow> flagsSet s = flagsSet st"
  by (auto simp: ensureSet_def flagsSet_def split: option.splits)

lemma buildCache_flags:
  assumes "\<forall>s. flagsSet s \<longrightarrow> flagsSet (yield h s)" and "flagsSet st"
    and "buildCache h t g f False st = Some s"
  shows "flagsSet s"
proof -
  obtain r s1 where e: "ensureSet (getTaskProviderType h t) st = (r, s1)"
    by (cases "ensureSet (getTaskProviderType h t) st")
  have f1: "flagsSet s1" using ensureSet_flags[OF e] assms(2) by simp
  define s3 where "s3 = (if truthy (taskGlobs s1 t) \<and> getTaskProviderType h t \<noteq> ''script''
                            \<and> taskGlobs s1 t \<noteq> g
                         then s1\<lparr>heap := (heap s1)(r := [])\<rparr> else s1)"
  define s4 where "s4 = s3\<lparr>taskGlobs := (taskGlobs s3)(t := g)\<rparr>"
  have f4: "flagsSet s4" using f1 by (simp add: s4_def s3_def flagsSet_def)
  have "s = (case f of None \<Rightarrow> buildFolderCaches h r t g False s4
             | Some fld \<Rightarrow> buildFolderCache h r fld t g False s4)"
    using assms(3) e unfolding s4_def s3_def by (auto simp: buildCache_def Let_def)
  then show ?thesis using f4 assms(1)
    by (auto simp: buildFolderCaches_def fold_buildFolderCache_flags buildFolderCache_flags
        split: option.splits)
qed

lemma scanProviders_flags:
  "(\<forall>s. flagsSet s \<longrightarrow> flagsSet (yield h s)) \<Longrightarrow> flagsSet st \<Longrightarrow>
     scanProviders h fld ps st = Some s \<Longrightarrow> flagsSet s"
proof (induction ps arbitrary: st)
  case Nil
  then show ?case by simp
next
  case (Cons p ps)
  show ?case
  proof (cases "\<not> cancel st \<and> (map_of (providersExternal h) p \<noteq> None \<or> enabled h p)")
    case True
    obtain s1 where s1: "buildCache h p (providerGlob h p) fld False st = Some s1"
      using buildCache_no_flag_total by blast
    have "flagsSet s1" using buildCache_flags[OF Cons.prems(1,2) s1] .
    moreover have "scanProviders h fld ps s1 = Some s" using Cons.prems(3) True s1 by simp
    ultimately show ?thesis using Cons.IH Cons.prems(1) by blast
  next
    case False
    then have "scanProviders h fld ps st = Some s" using Cons.prems(3) by auto
    then show ?thesis using Cons.IH Cons.prems(1,2) by blast
  qed
qed

lemma addFolderToCache_total:
  assumes "\<not> isCachingBusy st"
  shows "\<exists>s. addFolderToCache h fld st = Some s"
proof -
  have w1: "waitForCache h st = Some st"
    using assms by (subst waitForCache.simps) (simp add: isCachingBusy_def)
  have w2: "waitForFolderCaching h st = Some st"
    using assms by (subst waitForFolderCaching.simps) (simp add: isCachingBusy_def)
  obtain s4 where "scanProviders h fld (sort (getTaskTypes h @ map fst (providersExternal h)))
                     (st\<lparr>folderCaching := True, cacheBuilding := True\<rparr>) = Some s4"
    using scanProviders_total by blast
  then show ?thesis using w1 w2 by (simp add: addFolderToCache_def)
qed

text \<open>
  Claim C4: \<^verbatim>\<open>isCachingBusy\<close> is true exactly when \<^verbatim>\<open>cacheBuilding\<close> or
  \<^verbatim>\<open>folderCaching\<close> is.  \<^verbatim>\<open>addFolderToCache\<close>, once its two waits have returned, sets
  both flags and only then runs the loop over the providers; the scan itself never clears
  them (they are still set at its end unless another activity has cleared them); and in
  the state in which \<^verbatim>\<open>addFolderToCache\<close> returns, both flags and the cancel flag are
  false, whatever the cancel flag was during the scan.  It does return when it is called
  with neither flag set.
\<close>

theorem addFolderToCache_flags:
  "(isCachingBusy st \<longleftrightarrow> cacheBuilding st \<or> folderCaching st)
   \<and> (addFolderToCache h fld st = Some st' \<longrightarrow>
        \<not> cacheBuilding st' \<and> \<not> folderCaching st' \<and> \<not> cancel st'
        \<and> (\<exists>s s'. Option.bind (waitForCache h st) (waitForFolderCaching h) = Some s
              \<and> scanProviders h fld (sort (getTaskTypes h @ map fst (providersExternal h)))
                   (s\<lparr>folderCaching := True, cacheBuilding := True\<rparr>) = Some s'
              \<and> ((\<forall>x. flagsSet x \<longrightarrow> flagsSet (yield h x)) \<longrightarrow> flagsSet s')
              \<and> st' = s'\<lparr>cacheBuilding := False, folderCaching := False, cancel := False\<rparr>))
   \<and> (\<not> isCachingBusy st \<longrightarrow> (\<exists>s. addFolderToCache h fld st = Some s))"
proof (intro conjI impI)
  show "isCachingBusy st \<longleftrightarrow> cacheBuilding st \<or> folderCaching st"
    by (simp add: isCachingBusy_def)
next
  assume a: "addFolderToCache h fld st = Some st'"
  then obtain s1 s2 s4 where w1: "waitForCache h st = Some s1"
    and w2: "waitForFolderCaching h s1 = Some s2"
    and sp: "scanProviders h fld (sort (getTaskTypes h @ map fst (providersExternal h)))
               (s2\<lparr>folderCaching := True, cacheBuilding := True\<rparr>) = Some s4"
    and st': "st' = s4\<lparr>cacheBuilding := False, folderCaching := False, cancel := False\<rparr>"
    by (auto simp: addFolderToCache_def Let_def split: Option.bind_splits)
  show "\<not> cacheBuilding st'" "\<not> folderCaching st'" "\<not> cancel st'" using st' by simp_all
  have "flagsSet (s2\<lparr>folderCaching := True, cacheBuilding := True\<rparr>)"
    by (simp add: flagsSet_def)
  then have "(\<forall>x. flagsSet x \<longrightarrow> flagsSet (yield h x)) \<longrightarrow> flagsSet s4"
    using scanProviders_flags[OF _ _ sp] by blast
  then show "\<exists>s s'. Option.bind (waitForCache h st) (waitForFolderCaching h) = Some s
      \<and> scanProviders h fld (sort (getTaskTypes h @ map fst (providersExternal h)))
           (s\<lparr>folderCaching := True, cacheBuilding := True\<rparr>) = Some s'
      \<and> ((\<forall>x. flagsSet x \<longrightarrow> flagsSet (yield h x)) \<longrightarrow> flagsSet s')
      \<and> st' = s'\<lparr>cacheBuilding := False, folderCaching := False, cancel := False\<rparr>"
    using w1 w2 sp st' by auto
next
  assume nb: "\<not> isCachingBusy st"
  then show "\<exists>s. addFolderToCache h fld st = Some s" by (rule addFolderToCache_total)
qed

theorem addFolderToCache_flags_witness:
  "\<not> isCachingBusy initial_state
   \<and> isCachingBusy (initial_state\<lparr>folderCaching := True\<rparr>)
   \<and> (\<exists>s. addFolderToCache sample_host None initial_state = Some s
          \<and> \<not> cacheBuilding s \<and> \<not> folderCaching s \<and> \<not> cancel s)
   \<and> (\<exists>s. addFolderToCache sample_host None (initial_state\<lparr>cancel := True\<rparr>) = Some s
          \<and> \<not> cacheBuilding s \<and> \<not> folderCaching s \<and> \<not> cancel s)"
proof -
  have n: "\<not> isCachingBusy initial_state" "\<not> isCachingBusy (initial_state\<lparr>cancel := True\<rparr>)"
    "isCachingBusy (initial_state\<lparr>folderCaching := True\<rparr>)"
    by (simp_all add: isCachingBusy_def initial_state_def)
  obtain s where s: "addFolderToCache sample_host None initial_state = Some s"
    using addFolderToCache_flags[of initial_state sample_host None] n(1) by blast
  obtain t where t: "addFolderToCache sample_host None (initial_state\<lparr>cancel := True\<rparr>) = Some t"
    using addFolderToCache_flags[of "initial_state\<lparr>cancel := True\<rparr>" sample_host None] n(2)
    by blast
  have "\<not> cacheBuilding s \<and> \<not> folderCaching s \<and> \<not> cancel s"
    using addFolderToCache_flags[of initial_state sample_host None s] s by blast
  moreover have "\<not> cacheBuilding t \<and> \<not> folderCaching t \<and> \<not> cancel t"
    using addFolderToCache_flags[of "initial_state\<lparr>cancel := True\<rparr>" sample_host None t] t
    by blast
  ultimately show ?thesis using n s t by simp
qed

section \<open>Rebuilding the cache\<close>

lemma contents_None: "contents st k = None \<longleftrightarrow> filesCache st k = None"
  by (simp add: contents_def cacheSet_def)

lemma contents_update:
  assumes "wf st" and "filesCache st k = Some r"
    and "filesCache st' = filesCache st" and "heap st' = (heap st)(r := xs)"
  shows "contents st' = (contents st)(k \<mapsto> map snd xs)"
proof
  fix k'
  show "contents st' k' = ((contents st)(k \<mapsto> map snd xs)) k'"
  proof (cases "k' = k")
    case True
    then show ?thesis using assms by (simp add: contents_def cacheSet_def)
  next
    case False
    have "filesCache st k' \<noteq> Some r" using inj_other_key[OF wf_inj[OF assms(1)] assms(2) False] .
    then show ?thesis using False assms(3,4)
      by (cases "filesCache st k'") (auto simp: contents_def cacheSet_def)
  qed
qed

lemma contents_cong:
  "filesCache s' = filesCache s \<Longrightarrow> heap s' = heap s \<Longrightarrow> contents s' = contents s"
  by (rule ext) (simp add: contents_def cacheSet_def)

lemma wf_cong:
  "filesCache s' = filesCache s \<Longrightarrow> heap s' = heap s \<Longrightarrow> nextRef s' = nextRef s \<Longrightarrow>
     wf s' = wf s"
  by (simp add: wf_def)

lemma alikeAt_same_store:
  assumes "alikeAt k r1 r2 s t"
    and "filesCache s' = filesCache s" and "heap s' = heap s" and "nextRef s' = nextRef s"
    and "filesCache t' = filesCache t" and "heap t' = heap t" and "nextRef t' = nextRef t"
    and "sameControl s' t'"
  shows "alikeAt k r1 r2 s' t'"
  using assms wf_cong[of s' s] wf_cong[of t' t] contents_cong[of s' s] contents_cong[of t' t]
  by (simp add: alikeAt_def alike_def)

lemma contents_at: "filesCache st k = Some r \<Longrightarrow> contents st k = Some (map snd (heap st r))"
  by (simp add: contents_def cacheSet_def)

lemma alikeAt_heap:
  assumes "alikeAt k r1 r2 s t"
  shows "map snd (heap s r1) = map snd (heap t r2)"
proof -
  have "contents s k = contents t k" using assms by (simp add: alikeAt_def alike_def)
  then show ?thesis using assms contents_at[of s k r1] contents_at[of t k r2]
    by (simp add: alikeAt_def)
qed

lemma alikeAt_addItem:
  assumes "alikeAt k r1 r2 s t"
  shows "alikeAt k r1 r2 (addItem r1 item s) (addItem r2 item t)"
proof -
  have w: "wf s" "wf t" and f: "filesCache s k = Some r1" "filesCache t k = Some r2"
    and sc: "sameControl s t" and c: "contents s = contents t"
    using assms by (simp_all add: alikeAt_def alike_def)
  have fs: "filesCache (addItem r1 item s) = filesCache s" "filesCache (addItem r2 item t) = filesCache t"
    by (simp_all add: addItem_def)
  have c1: "contents (addItem r1 item s) = (contents s)(k \<mapsto> map snd (heap s r1 @ [(nextRef s, item)]))"
    using contents_update[OF w(1) f(1) fs(1)] heap_addItem[OF w(1)] by simp
  have c2: "contents (addItem r2 item t) = (contents t)(k \<mapsto> map snd (heap t r2 @ [(nextRef t, item)]))"
    using contents_update[OF w(2) f(2) fs(2)] heap_addItem[OF w(2)] by simp
  have "contents (addItem r1 item s) = contents (addItem r2 item t)"
    unfolding c1 c2 using c alikeAt_heap[OF assms] by simp
  moreover have "sameControl (addItem r1 item s) (addItem r2 item t)"
    using sc by (simp add: sameControl_def addItem_def)
  ultimately show ?thesis using wf_addItem[OF w(1)] wf_addItem[OF w(2)] f fs
    by (simp add: alikeAt_def alike_def)
qed

lemma alikeAt_cancelInternal:
  assumes "alikeAt k r1 r2 s t"
  shows "alikeAt k r1 r2 (cancelInternal b s) (cancelInternal b t)"
proof (rule alikeAt_same_store[OF assms])
  show "sameControl (cancelInternal b s) (cancelInternal b t)"
    using assms by (simp add: alikeAt_def alike_def sameControl_def cancelInternal_def)
qed (simp_all add: cancelInternal_def)

lemma alikeAt_scanPaths:
  "alikeAt k r1 r2 s t \<Longrightarrow>
     alikeAt k r1 r2 (scanPaths h r1 fld b ps s) (scanPaths h r2 fld b ps t)"
proof (induction ps arbitrary: s t)
  case Nil
  then show ?case by simp
next
  case (Cons p ps)
  have c: "cancel s = cancel t" using Cons.prems by (simp add: alikeAt_def alike_def sameControl_def)
  show ?case
    using Cons.IH[OF alikeAt_addItem[OF Cons.prems]] Cons.IH[OF Cons.prems]
      alikeAt_cancelInternal[OF Cons.prems] c
    by simp
qed

lemma alikeAt_yield:
  assumes "flagsOnly h" and "alikeAt k r1 r2 s t"
  shows "alikeAt k r1 r2 (yield h s) (yield h t)"
proof (rule alikeAt_same_store[OF assms(2)])
  show "sameControl (yield h s) (yield h t)"
    using assms by (simp add: flagsOnly_def alikeAt_def alike_def)
qed (use assms(1) in \<open>simp_all add: flagsOnly_def\<close>)

lemma alikeAt_buildFolderCache:
  "flagsOnly h \<Longrightarrow> alikeAt k r1 r2 s t \<Longrightarrow>
     alikeAt k r1 r2 (buildFolderCache h r1 fld ty g b s) (buildFolderCache h r2 fld ty g b t)"
  by (simp add: buildFolderCache_def alikeAt_yield alikeAt_scanPaths)

lemma alikeAt_buildFolderCaches:
  assumes "flagsOnly h" and "alikeAt k r1 r2 s t"
  shows "alikeAt k r1 r2 (buildFolderCaches h r1 ty g b s) (buildFolderCaches h r2 ty g b t)"
proof -
  have "alikeAt k r1 r2 (fold (\<lambda>fld. buildFolderCache h r1 fld ty g b) fs s)
          (fold (\<lambda>fld. buildFolderCache h r2 fld ty g b) fs t)" for fs
    using assms(2)
    by (induction fs arbitrary: s t) (simp_all add: alikeAt_buildFolderCache[OF assms(1)])
  then show ?thesis using assms(2) by (simp add: buildFolderCaches_def split: option.splits)
qed

lemma alikeAt_ensureSet:
  assumes "alike s t" and "ensureSet k s = (r1, s1)" and "ensureSet k t = (r2, t1)"
  shows "alikeAt k r1 r2 s1 t1"
proof -
  have w: "wf s" "wf t" and sc: "sameControl s t" and c: "contents s = contents t"
    using assms(1) by (simp_all add: alike_def)
  note e1 = wf_ensureSet[OF w(1) assms(2)]
  note e2 = wf_ensureSet[OF w(2) assms(3)]
  have "contents s1 k' = contents t1 k'" for k'
  proof (cases "k' = k")
    case True
    have "contents s k = contents t k" using c by simp
    then show ?thesis using True e1(3) e2(3)
      by (auto simp: contents_def split: option.splits)
  next
    case False
    have "contents s k' = contents t k'" using c by simp
    then show ?thesis using e1(4)[OF False] e2(4)[OF False] by (simp add: contents_def)
  qed
  then have "contents s1 = contents t1" by (simp add: fun_eq_iff)
  moreover have "sameControl s1 t1"
    using sc assms(2,3) by (auto simp: ensureSet_def sameControl_def split: option.splits)
  ultimately show ?thesis using e1(1,2) e2(1,2) by (simp add: alikeAt_def alike_def)
qed

lemma alikeAt_clear:
  assumes "alikeAt k r1 r2 s t"
  shows "alikeAt k r1 r2 (s\<lparr>heap := (heap s)(r1 := [])\<rparr>) (t\<lparr>heap := (heap t)(r2 := [])\<rparr>)"
proof -
  have w: "wf s" "wf t" and f: "filesCache s k = Some r1" "filesCache t k = Some r2"
    and sc: "sameControl s t" and c: "contents s = contents t"
    using assms by (simp_all add: alikeAt_def alike_def)
  have c1: "contents (s\<lparr>heap := (heap s)(r1 := [])\<rparr>) = (contents s)(k \<mapsto> [])"
    using contents_update[OF w(1) f(1), of "s\<lparr>heap := (heap s)(r1 := [])\<rparr>" "[]"] by simp
  have c2: "contents (t\<lparr>heap := (heap t)(r2 := [])\<rparr>) = (contents t)(k \<mapsto> [])"
    using contents_update[OF w(2) f(2), of "t\<lparr>heap := (heap t)(r2 := [])\<rparr>" "[]"] by simp
  have w1: "wf (s\<lparr>heap := (heap s)(r1 := [])\<rparr>)"
    using w(1) by (auto simp: wf_def)
  have w2: "wf (t\<lparr>heap := (heap t)(r2 := [])\<rparr>)"
    using w(2) by (auto simp: wf_def)
  show ?thesis using c1 c2 c w1 w2 f sc by (simp add: alikeAt_def alike_def sameControl_def)
qed

lemma alikeAt_taskGlobs:
  assumes "alikeAt k r1 r2 s t"
  shows "alikeAt k r1 r2 (s\<lparr>taskGlobs := (taskGlobs s)(ty := g)\<rparr>)
           (t\<lparr>taskGlobs := (taskGlobs t)(ty := g)\<rparr>)"
proof (rule alikeAt_same_store[OF assms])
  show "sameControl (s\<lparr>taskGlobs := (taskGlobs s)(ty := g)\<rparr>)
          (t\<lparr>taskGlobs := (taskGlobs t)(ty := g)\<rparr>)"
    using assms by (simp add: alikeAt_def alike_def sameControl_def)
qed simp_all

lemma alike_buildCache:
  assumes "flagsOnly h" and "alike s t"
    and "buildCache h ty g f False s = Some s'" and "buildCache h ty g f False t = Some t'"
  shows "alike s' t'"
proof -
  let ?k = "getTaskProviderType h ty"
  obtain r1 s1 where e1: "ensureSet ?k s = (r1, s1)" by (cases "ensureSet ?k s")
  obtain r2 t1 where e2: "ensureSet ?k t = (r2, t1)" by (cases "ensureSet ?k t")
  have a1: "alikeAt ?k r1 r2 s1 t1" using alikeAt_ensureSet[OF assms(2) e1 e2] .
  have g: "taskGlobs s1 = taskGlobs t1" using a1 by (simp add: alikeAt_def alike_def sameControl_def)
  define s3 where "s3 = (if truthy (taskGlobs s1 ty) \<and> ?k \<noteq> ''script'' \<and> taskGlobs s1 ty \<noteq> g
                         then s1\<lparr>heap := (heap s1)(r1 := [])\<rparr> else s1)"
  define t3 where "t3 = (if truthy (taskGlobs t1 ty) \<and> ?k \<noteq> ''script'' \<and> taskGlobs t1 ty \<noteq> g
                         then t1\<lparr>heap := (heap t1)(r2 := [])\<rparr> else t1)"
  have a3: "alikeAt ?k r1 r2 s3 t3" using a1 alikeAt_clear[OF a1] g by (simp add: s3_def t3_def)
  define s4 where "s4 = s3\<lparr>taskGlobs := (taskGlobs s3)(ty := g)\<rparr>"
  define t4 where "t4 = t3\<lparr>taskGlobs := (taskGlobs t3)(ty := g)\<rparr>"
  have a4: "alikeAt ?k r1 r2 s4 t4" using alikeAt_taskGlobs[OF a3] by (simp add: s4_def t4_def)
  have s': "s' = (case f of None \<Rightarrow> buildFolderCaches h r1 ty g False s4
             | Some fld \<Rightarrow> buildFolderCache h r1 fld ty g False s4)"
    using assms(3) e1 unfolding s4_def s3_def by (auto simp: buildCache_def Let_def)
  have t': "t' = (case f of None \<Rightarrow> buildFolderCaches h r2 ty g False t4
             | Some fld \<Rightarrow> buildFolderCache h r2 fld ty g False t4)"
    using assms(4) e2 unfolding t4_def t3_def by (auto simp: buildCache_def Let_def)
  have "alikeAt ?k r1 r2 s' t'"
    unfolding s' t'
    using alikeAt_buildFolderCaches[OF assms(1) a4] alikeAt_buildFolderCache[OF assms(1) a4]
    by (cases f) simp_all
  then show ?thesis by (simp add: alikeAt_def)
qed


lemma alike_sym: "alike s t \<Longrightarrow> alike t s"
  by (auto simp: alike_def sameControl_def)

lemma alike_yield:
  assumes "flagsOnly h" and "alike s t"
  shows "alike (yield h s) (yield h t)"
proof -
  have y: "filesCache (yield h x) = filesCache x" "heap (yield h x) = heap x"
    "nextRef (yield h x) = nextRef x" for x
    using assms(1) by (simp_all add: flagsOnly_def)
  have "sameControl (yield h s) (yield h t)"
    using assms by (simp add: flagsOnly_def alike_def)
  then show ?thesis
    using assms(2) wf_cong[OF y, of s] wf_cong[OF y, of t]
      contents_cong[OF y(1,2), of s] contents_cong[OF y(1,2), of t]
    by (simp add: alike_def)
qed

lemma alike_scanProviders:
  assumes "flagsOnly h"
  shows "alike s t \<Longrightarrow> scanProviders h fld ps s = Some s' \<Longrightarrow>
           scanProviders h fld ps t = Some t' \<Longrightarrow> alike s' t'"
proof (induction ps arbitrary: s t)
  case Nil
  then show ?case by simp
next
  case (Cons p ps)
  have c: "cancel s = cancel t" using Cons.prems(1) by (simp add: alike_def sameControl_def)
  show ?case
  proof (cases "\<not> cancel s \<and> (map_of (providersExternal h) p \<noteq> None \<or> enabled h p)")
    case True
    obtain s1 where s1: "buildCache h p (providerGlob h p) fld False s = Some s1"
      using buildCache_no_flag_total by blast
    obtain t1 where t1: "buildCache h p (providerGlob h p) fld False t = Some t1"
      using buildCache_no_flag_total by blast
    have a: "alike s1 t1" using alike_buildCache[OF assms Cons.prems(1) s1 t1] .
    have "scanProviders h fld ps s1 = Some s'" using Cons.prems(2) True s1 by simp
    moreover have "scanProviders h fld ps t1 = Some t'" using Cons.prems(3) True t1 c by simp
    ultimately show ?thesis using Cons.IH[OF a] by blast
  next
    case False
    then have "scanProviders h fld ps s = Some s'" using Cons.prems(2) by auto
    moreover have "scanProviders h fld ps t = Some t'" using Cons.prems(3) False c by auto
    ultimately show ?thesis using Cons.IH[OF Cons.prems(1)] by blast
  qed
qed

lemma alike_waitForCache:
  "waitForCache h s = Some s' \<Longrightarrow> flagsOnly h \<Longrightarrow> alike s t \<Longrightarrow>
     \<exists>t'. waitForCache h t = Some t' \<and> alike s' t'"
proof (induction arbitrary: t rule: waitForCache.raw_induct[rotated 1, consumes 1])
  case (1 wfc h s s')
  have b: "(cacheBuilding s = True \<or> folderCaching s = True)
             = (cacheBuilding t = True \<or> folderCaching t = True)"
    using 1(4) by (simp add: alike_def sameControl_def)
  show ?case
  proof (cases "cacheBuilding s = True \<or> folderCaching s = True")
    case True
    then have "wfc h (yield h s) = Some s'" using 1(2) by simp
    from 1(1)[OF this 1(3) alike_yield[OF 1(3,4)]]
    obtain t' where "waitForCache h (yield h t) = Some t'" "alike s' t'" by blast
    moreover have "waitForCache h t = waitForCache h (yield h t)"
      using True b by (subst waitForCache.simps) simp
    ultimately show ?thesis by simp
  next
    case False
    then have "s' = s" using 1(2) by simp
    moreover have "waitForCache h t = Some t"
      using False b by (subst waitForCache.simps) simp
    ultimately show ?thesis using 1(4) by simp
  qed
qed

lemma alike_waitForFolderCaching:
  "waitForFolderCaching h s = Some s' \<Longrightarrow> flagsOnly h \<Longrightarrow> alike s t \<Longrightarrow>
     \<exists>t'. waitForFolderCaching h t = Some t' \<and> alike s' t'"
proof (induction arbitrary: t rule: waitForFolderCaching.raw_induct[rotated 1, consumes 1])
  case (1 wfc h s s')
  have b: "(folderCaching s = True) = (folderCaching t = True)"
    using 1(4) by (simp add: alike_def sameControl_def)
  show ?case
  proof (cases "folderCaching s = True")
    case True
    then have "wfc h (yield h s) = Some s'" using 1(2) by simp
    from 1(1)[OF this 1(3) alike_yield[OF 1(3,4)]]
    obtain t' where "waitForFolderCaching h (yield h t) = Some t'" "alike s' t'" by blast
    moreover have "waitForFolderCaching h t = waitForFolderCaching h (yield h t)"
      using True b by (subst waitForFolderCaching.simps) simp
    ultimately show ?thesis by simp
  next
    case False
    then have "s' = s" using 1(2) by simp
    moreover have "waitForFolderCaching h t = Some t"
      using False b by (subst waitForFolderCaching.simps) simp
    ultimately show ?thesis using 1(4) by simp
  qed
qed

lemma alike_addFolderToCache_Some:
  assumes "flagsOnly h" and "alike s t" and "addFolderToCache h fld s = Some s'"
  shows "\<exists>t'. addFolderToCache h fld t = Some t' \<and> alike s' t'"
proof -
  let ?ps = "sort (getTaskTypes h @ map fst (providersExternal h))"
  from assms(3) obtain s1 s2 s4 where w1: "waitForCache h s = Some s1"
    and w2: "waitForFolderCaching h s1 = Some s2"
    and sp: "scanProviders h fld ?ps (s2\<lparr>folderCaching := True, cacheBuilding := True\<rparr>) = Some s4"
    and s': "s' = s4\<lparr>cacheBuilding := False, folderCaching := False, cancel := False\<rparr>"
    by (auto simp: addFolderToCache_def Let_def split: Option.bind_splits)
  obtain t1 where t1: "waitForCache h t = Some t1" "alike s1 t1"
    using alike_waitForCache[OF w1 assms(1,2)] by blast
  obtain t2 where t2: "waitForFolderCaching h t1 = Some t2" "alike s2 t2"
    using alike_waitForFolderCaching[OF w2 assms(1) t1(2)] by blast
  let ?s3 = "s2\<lparr>folderCaching := True, cacheBuilding := True\<rparr>"
  let ?t3 = "t2\<lparr>folderCaching := True, cacheBuilding := True\<rparr>"
  have a3: "alike ?s3 ?t3"
    using t2(2) wf_cong[of ?s3 s2] wf_cong[of ?t3 t2] contents_cong[of ?s3 s2] contents_cong[of ?t3 t2]
    by (simp add: alike_def sameControl_def)
  obtain t4 where t4: "scanProviders h fld ?ps ?t3 = Some t4"
    using scanProviders_total by blast
  have a4: "alike s4 t4" using alike_scanProviders[OF assms(1) a3 sp t4] .
  let ?t' = "t4\<lparr>cacheBuilding := False, folderCaching := False, cancel := False\<rparr>"
  have "alike s' ?t'"
    unfolding s'
    using a4 wf_cong[of "s4\<lparr>cacheBuilding := False, folderCaching := False, cancel := False\<rparr>" s4]
      wf_cong[of ?t' t4]
      contents_cong[of "s4\<lparr>cacheBuilding := False, folderCaching := False, cancel := False\<rparr>" s4]
      contents_cong[of ?t' t4]
    by (simp add: alike_def sameControl_def)
  moreover have "addFolderToCache h fld t = Some ?t'"
    using t1(1) t2(1) t4 by (simp add: addFolderToCache_def)
  ultimately show ?thesis by blast
qed

lemma alike_cleared:
  assumes "wf s" and "wf t" and "sameControl s t"
  shows "alike (s\<lparr>filesCache := Map.empty\<rparr>) (t\<lparr>filesCache := Map.empty\<rparr>)"
proof -
  have "wf (s\<lparr>filesCache := Map.empty\<rparr>)" "wf (t\<lparr>filesCache := Map.empty\<rparr>)"
    using assms(1,2) by (simp_all add: wf_def)
  moreover have "contents (s\<lparr>filesCache := Map.empty\<rparr>) = contents (t\<lparr>filesCache := Map.empty\<rparr>)"
    by (rule ext) (simp add: contents_def cacheSet_def)
  ultimately show ?thesis using assms(3) by (simp add: alike_def sameControl_def)
qed

lemma rebuildCache_sample:
  "map_option (\<lambda>a. contents a ''pipenv'') (rebuildCache sample_host dup_state)
     = Some (Some [\<lparr>uri = pipfileUri, folder = projFolder\<rparr>])"
  by (simp add: rebuildCache_def addFolderToCache_def waitForCache.simps
      waitForFolderCaching.simps dup_state_def sample_host_def buildCache_def ensureSet_def
      providerGlob_def truthy_def buildFolderCaches_def buildFolderCache_def addItem_def
      set_add_def contents_def cacheSet_def Let_def)

text \<open>
  Claim C2: \<^verbatim>\<open>rebuildCache\<close> rebuilds the cache wholesale.  It is
  \<^verbatim>\<open>addFolderToCache\<close> for the entire workspace, run on the state whose map
  \<^verbatim>\<open>filesCache\<close> has been emptied first, so the entries the map had before the call have
  no influence on the result.  More is true when the other activities write nothing but
  the flags while the rebuild is suspended: started in two states that agree on the flags
  and on \<^verbatim>\<open>taskGlobs\<close>, whatever their caches hold, the two rebuilds either both never
  return or both return, with caches that hold the same items under the same keys; and a
  rebuild that is started with neither busy flag set returns.
\<close>

theorem rebuildCache_wholesale:
  assumes "wf st1" and "wf st2" and "sameControl st1 st2" and "flagsOnly h"
  shows "rebuildCache h st = addFolderToCache h None (st\<lparr>filesCache := Map.empty\<rparr>)
    \<and> rebuildCache h (st\<lparr>filesCache := fc\<rparr>) = rebuildCache h st
    \<and> (rebuildCache h st1 = None \<longleftrightarrow> rebuildCache h st2 = None)
    \<and> (\<forall>a b. rebuildCache h st1 = Some a \<and> rebuildCache h st2 = Some b \<longrightarrow>
          contents a = contents b)
    \<and> (\<not> isCachingBusy st1 \<longrightarrow> (\<exists>a. rebuildCache h st1 = Some a))"
proof -
  let ?s = "st1\<lparr>filesCache := Map.empty\<rparr>"
  let ?t = "st2\<lparr>filesCache := Map.empty\<rparr>"
  have a: "alike ?s ?t" using alike_cleared[OF assms(1,2,3)] .
  have 1: "\<exists>b. rebuildCache h st2 = Some b \<and> alike x b" if "rebuildCache h st1 = Some x" for x
    using alike_addFolderToCache_Some[OF assms(4) a] that by (simp add: rebuildCache_def)
  have 2: "\<exists>b. rebuildCache h st1 = Some b \<and> alike x b" if "rebuildCache h st2 = Some x" for x
    using alike_addFolderToCache_Some[OF assms(4) alike_sym[OF a]] that
    by (simp add: rebuildCache_def)
  have n: "rebuildCache h st1 = None \<longleftrightarrow> rebuildCache h st2 = None"
    using 1 2 by (metis option.exhaust option.distinct(1))
  have e: "\<forall>a b. rebuildCache h st1 = Some a \<and> rebuildCache h st2 = Some b \<longrightarrow>
             contents a = contents b"
    using 1 by (auto simp: alike_def)
  have t: "\<not> isCachingBusy st1 \<longrightarrow> (\<exists>a. rebuildCache h st1 = Some a)"
    using addFolderToCache_total[of ?s h None] by (simp add: rebuildCache_def isCachingBusy_def)
  show ?thesis using n e t by (simp add: rebuildCache_def)
qed

theorem rebuildCache_wholesale_witness:
  "wf dup_state \<and> wf initial_state \<and> sameControl dup_state initial_state
   \<and> flagsOnly sample_host \<and> \<not> isCachingBusy dup_state
   \<and> contents dup_state ''pipenv''
       = Some [\<lparr>uri = pipfileUri, folder = projFolder\<rparr>, \<lparr>uri = pipfileUri, folder = projFolder\<rparr>]
   \<and> contents initial_state ''pipenv'' = None
   \<and> (\<exists>a b. rebuildCache sample_host dup_state = Some a
          \<and> rebuildCache sample_host initial_state = Some b
          \<and> contents a = contents b
          \<and> contents a ''pipenv'' = Some [\<lparr>uri = pipfileUri, folder = projFolder\<rparr>])"
proof -
  have sc: "sameControl dup_state initial_state"
    by (simp add: sameControl_def dup_state_def initial_state_def)
  have fo: "flagsOnly sample_host" by (simp add: flagsOnly_def sample_host_def)
  have nb: "\<not> isCachingBusy dup_state" by (simp add: isCachingBusy_def dup_state_def)
  have c: "contents dup_state ''pipenv''
       = Some [\<lparr>uri = pipfileUri, folder = projFolder\<rparr>, \<lparr>uri = pipfileUri, folder = projFolder\<rparr>]"
    "contents initial_state ''pipenv'' = None"
    by (simp_all add: contents_def cacheSet_def dup_state_def initial_state_def)
  note t = rebuildCache_wholesale[OF wf_dup_state wf_initial_state sc fo, of dup_state Map.empty]
  obtain a where a: "rebuildCache sample_host dup_state = Some a" using t nb by blast
  obtain b where b: "rebuildCache sample_host initial_state = Some b" using t a by fastforce
  have e: "contents a = contents b" using t a b by blast
  have "contents a ''pipenv'' = Some [\<lparr>uri = pipfileUri, folder = projFolder\<rparr>]"
    using rebuildCache_sample a by simp
  then show ?thesis using wf_dup_state wf_initial_state sc fo nb c a b e by simp
qed

section \<open>The tasks of a Pipfile\<close>

lemma objectEntries_mset: "mset (objectEntries props) = mset props"
proof -
  have "mset (objectEntries props)
          = filter_mset (isArrayIndex \<circ> fst) (mset props)
            + filter_mset (\<lambda>p. \<not> isArrayIndex (fst p)) (mset props)"
    by (simp add: objectEntries_def)
  also have "\<dots> = mset props"
    using multiset_partition[of "mset props" "isArrayIndex \<circ> fst"] by (simp add: comp_def)
  finally show ?thesis .
qed

lemma objectEntries_no_index:
  "\<forall>p \<in> set props. \<not> isArrayIndex (fst p) \<Longrightarrow> objectEntries props = props"
  by (simp add: objectEntries_def filter_empty_conv[THEN iffD2] comp_def)

lemma readUriTasks_names:
  "getWorkspaceFolder h u = Some fld \<Longrightarrow>
     map taskName (readUriTasks h u) = findTargets h (fsPath u)"
  by (simp add: readUriTasks_def createTask_def Let_def comp_def)

lemma readUriTasks_fields:
  "getWorkspaceFolder h u = Some fld \<Longrightarrow> t \<in> set (readUriTasks h u) \<Longrightarrow>
     taskSource t = ''pipenv'' \<and> taskGroup t = Some Build \<and> taskScope t = fld
     \<and> defUri (taskDefinition t) = Some u \<and> defScript (taskDefinition t) = taskName t"
  by (auto simp: readUriTasks_def createTask_def Let_def getDefaultDefinition_def)

text \<open>
  Claim C7, as the specification states it: the tasks of a Pipfile come in the order in
  which the script entries appear in the file.  The code does not do this for every
  Pipfile.  For a scripts table with the entries \<^verbatim>\<open>b\<close>, \<^verbatim>\<open>2\<close>, \<^verbatim>\<open>1\<close>, in this order,
  \<^verbatim>\<open>Object.entries\<close> lists the keys \<^verbatim>\<open>1\<close> and \<^verbatim>\<open>2\<close> first, and the tasks are
  \<^verbatim>\<open>1\<close>, \<^verbatim>\<open>2\<close>, \<^verbatim>\<open>b\<close>.
\<close>

theorem readUriTasks_pipenv_numeric_names_first:
  "getWorkspaceFolder
     (sample_host\<lparr>tomlScripts :=
        (\<lambda>_. Some [(''b'', ''make''), (''2'', ''echo two''), (''1'', ''echo one'')])\<rparr>)
     pipfileUri = Some projFolder
   \<and> tomlScripts
       (sample_host\<lparr>tomlScripts :=
          (\<lambda>_. Some [(''b'', ''make''), (''2'', ''echo two''), (''1'', ''echo one'')])\<rparr>)
       (readFileSync
          (sample_host\<lparr>tomlScripts :=
             (\<lambda>_. Some [(''b'', ''make''), (''2'', ''echo two''), (''1'', ''echo one'')])\<rparr>)
          (fsPath pipfileUri))
     = Some [(''b'', ''make''), (''2'', ''echo two''), (''1'', ''echo one'')]
   \<and> map taskName
       (readUriTasks
          (sample_host\<lparr>tomlScripts :=
             (\<lambda>_. Some [(''b'', ''make''), (''2'', ''echo two''), (''1'', ''echo one'')])\<rparr>)
          pipfileUri)
     = [''1'', ''2'', ''b'']
   \<and> map taskName
       (readUriTasks
          (sample_host\<lparr>tomlScripts :=
             (\<lambda>_. Some [(''b'', ''make''), (''2'', ''echo two''), (''1'', ''echo one'')])\<rparr>)
          pipfileUri)
     \<noteq> map fst [(''b'', ''make''), (''2'', ''echo two''), (''1'', ''echo one'')]"
  by (simp add: readUriTasks_def findTargets_def createTask_def Let_def sample_host_def
      objectEntries_def isArrayIndex_def isDigit_def digitsValue_def)

text \<open>
  Claim C7, amended: for a uri that has a workspace folder, \<^verbatim>\<open>readUriTasks\<close> of the
  pipenv provider returns exactly one task for each script name of the scripts table of the
  Pipfile at that uri; each task is named after its script, has the source \<^verbatim>\<open>pipenv\<close>
  and the group Build (and belongs to that folder and that uri).  The tasks come in the order
  of \<^verbatim>\<open>Object.entries\<close>: first the scripts whose names are array indices, in ascending
  numeric order, then the other scripts in the order in which their entries appear in the
  file; so in the order of the file when no script name is an array index.  The function
  returns the empty list when the uri has no workspace folder and when the Pipfile has no
  scripts table.
\<close>

theorem readUriTasks_pipenv_scripts:
  "(getWorkspaceFolder h u = Some fld
      \<and> tomlScripts h (readFileSync h (fsPath u)) = Some props \<longrightarrow>
      map taskName (readUriTasks h u)
        = map fst (sort_key (digitsValue \<circ> fst) (filter (isArrayIndex \<circ> fst) props))
          @ map fst (filter (\<lambda>p. \<not> isArrayIndex (fst p)) props)
      \<and> sorted (map digitsValue
           (map fst (sort_key (digitsValue \<circ> fst) (filter (isArrayIndex \<circ> fst) props))))
      \<and> mset (map taskName (readUriTasks h u)) = mset (map fst props)
      \<and> length (readUriTasks h u) = length props
      \<and> ((\<forall>p \<in> set props. \<not> isArrayIndex (fst p)) \<longrightarrow>
            map taskName (readUriTasks h u) = map fst props)
      \<and> (\<forall>t \<in> set (readUriTasks h u).
            taskSource t = ''pipenv'' \<and> taskGroup t = Some Build
            \<and> taskScope t = fld \<and> defUri (taskDefinition t) = Some u
            \<and> defScript (taskDefinition t) = taskName t))
   \<and> (getWorkspaceFolder h u = None \<longrightarrow> readUriTasks h u = [])
   \<and> (tomlScripts h (readFileSync h (fsPath u)) = None \<longrightarrow> readUriTasks h u = [])"
proof (intro conjI impI)
  assume a: "getWorkspaceFolder h u = Some fld
               \<and> tomlScripts h (readFileSync h (fsPath u)) = Some props"
  then have g: "getWorkspaceFolder h u = Some fld" by simp
  have n: "map taskName (readUriTasks h u) = map fst (objectEntries props)"
    using a readUriTasks_names[OF g] by (simp add: findTargets_def)
  show "map taskName (readUriTasks h u)
        = map fst (sort_key (digitsValue \<circ> fst) (filter (isArrayIndex \<circ> fst) props))
          @ map fst (filter (\<lambda>p. \<not> isArrayIndex (fst p)) props)"
    unfolding n by (simp add: objectEntries_def)
  show "sorted (map digitsValue
           (map fst (sort_key (digitsValue \<circ> fst) (filter (isArrayIndex \<circ> fst) props))))"
    using sorted_sort_key[of "digitsValue \<circ> fst" "filter (isArrayIndex \<circ> fst) props"]
    by (simp add: comp_def)
  have "mset (map fst (objectEntries props)) = mset (map fst props)"
    using objectEntries_mset[of props] by (metis mset_map)
  then show m: "mset (map taskName (readUriTasks h u)) = mset (map fst props)"
    unfolding n .
  have "length (map taskName (readUriTasks h u)) = length (map fst props)"
    using m by (rule mset_eq_length)
  then show "length (readUriTasks h u) = length props" by simp
  show "map taskName (readUriTasks h u) = map fst props"
    if "\<forall>p \<in> set props. \<not> isArrayIndex (fst p)"
    unfolding n using objectEntries_no_index[OF that] by simp
  show "\<forall>t \<in> set (readUriTasks h u).
            taskSource t = ''pipenv'' \<and> taskGroup t = Some Build
            \<and> taskScope t = fld \<and> defUri (taskDefinition t) = Some u
            \<and> defScript (taskDefinition t) = taskName t"
    using readUriTasks_fields[OF g] by blast
next
  assume "getWorkspaceFolder h u = None"
  then show "readUriTasks h u = []" by (simp add: readUriTasks_def)
next
  assume "tomlScripts h (readFileSync h (fsPath u)) = None"
  then show "readUriTasks h u = []"
    by (simp add: readUriTasks_def findTargets_def objectEntries_def split: option.splits)
qed

theorem readUriTasks_pipenv_scripts_witness:
  "getWorkspaceFolder sample_host pipfileUri = Some projFolder
   \<and> tomlScripts sample_host (readFileSync sample_host (fsPath pipfileUri))
       = Some [(''test'', ''pytest''), (''lint'', ''flake8'')]
   \<and> \<not> isArrayIndex ''test'' \<and> \<not> isArrayIndex ''lint''
   \<and> map taskName (readUriTasks sample_host pipfileUri) = [''test'', ''lint'']
   \<and> map taskSource (readUriTasks sample_host pipfileUri) = [''pipenv'', ''pipenv'']
   \<and> map taskGroup (readUriTasks sample_host pipfileUri) = [Some Build, Some Build]
   \<and> getWorkspaceFolder sample_host strayUri = None
   \<and> readUriTasks sample_host strayUri = []
   \<and> tomlScripts (sample_host\<lparr>tomlScripts := (\<lambda>_. None)\<rparr>)
        (readFileSync (sample_host\<lparr>tomlScripts := (\<lambda>_. None)\<rparr>) (fsPath pipfileUri)) = None
   \<and> readUriTasks (sample_host\<lparr>tomlScripts := (\<lambda>_. None)\<rparr>) pipfileUri = []"
proof -
  let ?es = "[(''test'', ''pytest''), (''lint'', ''flake8'')]"
  let ?h0 = "sample_host\<lparr>tomlScripts := (\<lambda>_. None)\<rparr>"
  have g: "getWorkspaceFolder sample_host pipfileUri = Some projFolder"
    "getWorkspaceFolder sample_host strayUri = None"
    by (simp_all add: sample_host_def strayUri_def pipfileUri_def)
  have s: "tomlScripts sample_host (readFileSync sample_host (fsPath pipfileUri)) = Some ?es"
    by (simp add: sample_host_def)
  have n: "tomlScripts ?h0 (readFileSync ?h0 (fsPath pipfileUri)) = None" by simp
  have i: "\<not> isArrayIndex ''test''" "\<not> isArrayIndex ''lint''"
    by (simp_all add: isArrayIndex_def isDigit_def)
  then have ni: "\<forall>p \<in> set ?es. \<not> isArrayIndex (fst p)" by simp
  note t = readUriTasks_pipenv_scripts[of sample_host pipfileUri projFolder ?es]
  have "map taskName (readUriTasks sample_host pipfileUri) = map fst ?es"
    using t g(1) s ni by blast
  then have 1: "map taskName (readUriTasks sample_host pipfileUri) = [''test'', ''lint'']"
    by simp
  then obtain a b where ab: "readUriTasks sample_host pipfileUri = [a, b]"
    by (cases "readUriTasks sample_host pipfileUri" rule: list.exhaust) auto
  have "\<forall>t \<in> set (readUriTasks sample_host pipfileUri).
          taskSource t = ''pipenv'' \<and> taskGroup t = Some Build"
    using t g(1) s by blast
  then have 2: "map taskSource (readUriTasks sample_host pipfileUri) = [''pipenv'', ''pipenv'']"
    "map taskGroup (readUriTasks sample_host pipfileUri) = [Some Build, Some Build]"
    unfolding ab by simp_all
  have 3: "readUriTasks sample_host strayUri = []"
    using readUriTasks_pipenv_scripts[of sample_host strayUri projFolder ?es] g(2) by blast
  have 4: "readUriTasks ?h0 pipfileUri = []"
    using readUriTasks_pipenv_scripts[of ?h0 pipfileUri projFolder ?es] n by blast
  show ?thesis using g s n i 1 2 3 4 by simp
qed

section \<open>Reading the tasks of the cached files\<close>

lemma readFiles_visits:
  "readFiles h rd items seen acc =
     acc @ concat (map rd (visits (\<lambda>u. \<not> isExcluded h (path u) \<and> pathExists h (fsPath u)) seen
                             (map (uri \<circ> snd) items)))"
  by (induction items arbitrary: seen acc) auto

lemma readFiles_pipenv_visits:
  "readFiles_pipenv h items seen acc =
     acc @ concat (map (readUriTasks h) (visits (\<lambda>u. \<not> isExcluded h (path u)) seen
                             (map (uri \<circ> snd) items)))"
  by (induction items arbitrary: seen acc) auto






section \<open>The cached task list of a provider\<close>

lemma readTasks_visits:
  "readTasks h rd p st =
     (if enabled h (providerName p)
      then concat (map rd (visits (\<lambda>u. \<not> isExcluded h (path u) \<and> pathExists h (fsPath u)) []
                             (cacheUris st (providerName p))))
      else [])"
  by (simp add: readTasks_def cacheUris_def cacheSet_def readFiles_visits split: option.splits)

lemma readTasks_pipenv_visits:
  "readTasks_pipenv h st =
     (if workspaceFolders h \<noteq> None
      then concat (map (readUriTasks h) (visits (\<lambda>u. \<not> isExcluded h (path u)) []
                             (cacheUris st ''pipenv'')))
      else [])"
  by (simp add: readTasks_pipenv_def cacheUris_def cacheSet_def readFiles_pipenv_visits
      split: option.splits)

lemma invalidate_clears:
  "u = None \<or> (\<not> invalidating p \<and> cachedTasks p = None) \<Longrightarrow>
   cachedTasks (fst (invalidate h rd u p st)) = None \<and> snd (invalidate h rd u p st) = st
   \<and> queue (fst (invalidate h rd u p st)) = [] \<and> \<not> invalidating (fst (invalidate h rd u p st))
   \<and> providerName (fst (invalidate h rd u p st)) = providerName p"
proof (induction h rd u p st rule: invalidate.induct)
  case (1 h rd u p st)
  have nopush: "\<not> (u \<noteq> None \<and> invalidating p)" using 1(2) by auto
  have res: "(case cachedTasks p of None \<Rightarrow> (None, st)
        | Some tasks \<Rightarrow> (case u of None \<Rightarrow> (None, st)
             | Some x \<Rightarrow> refreshUri h rd (providerName p) x tasks st)) = (None, st)"
    using 1(2) by (auto split: option.splits)
  show ?case
  proof (cases "queue p")
    case Nil
    then show ?thesis
      using nopush res by (subst (1 2 3 4 5) invalidate.simps) (simp add: Let_def)
  next
    case (Cons q qs)
    let ?p1 = "p\<lparr>cachedTasks := None, invalidating := False\<rparr>"
    let ?r = "invalidate h rd (Some q) (?p1\<lparr>queue := qs\<rparr>) st"
    have ih: "cachedTasks (fst ?r) = None \<and> snd ?r = st \<and> queue (fst ?r) = []
       \<and> \<not> invalidating (fst ?r) \<and> providerName (fst ?r) = providerName p"
      using 1(1)[OF nopush refl refl Cons] res by simp
    have eq: "invalidate h rd u p st = ?r"
      using nopush res Cons by (subst invalidate.simps) (auto simp: Let_def)
    show ?thesis unfolding eq using ih .
  qed
qed

lemma invalidate_all:
  "invalidate h rd None p st = (p\<lparr>cachedTasks := None, invalidating := False, queue := []\<rparr>, st)"
proof -
  let ?r = "invalidate h rd None p st"
  have "fst ?r = p\<lparr>cachedTasks := None, invalidating := False, queue := []\<rparr>"
    using invalidate_clears[of None p h rd st] by (intro provider.equality) simp_all
  moreover have "snd ?r = st" using invalidate_clears[of None p h rd st] by simp
  ultimately show ?thesis by (simp add: prod_eq_iff)
qed

text \<open>
  Claim C8: a provider keeps the list of its tasks.  \<^verbatim>\<open>provideTasks\<close> calls the
  \<^verbatim>\<open>readTasks\<close> of the provider's class only when \<^verbatim>\<open>cachedTasks\<close> is undefined, and
  stores the result; otherwise it returns the stored list and the provider is unchanged,
  whatever the file cache and the files are.  \<^verbatim>\<open>invalidate\<close> without a uri leaves
  \<^verbatim>\<open>cachedTasks\<close> undefined, the queue empty and the file cache as it was.  The next
  \<^verbatim>\<open>provideTasks\<close> then computes the list anew from the file cache of that time and
  stores it: for \<^verbatim>\<open>PipenvTaskProvider\<close> with its own \<^verbatim>\<open>readTasks\<close>, for a class that
  does not override \<^verbatim>\<open>readTasks\<close> with that of the base class; in both cases the list
  is made of the tasks of the files of the provider's cache set, each path once.
\<close>

theorem provideTasks_cached:
  "(cachedTasks p = Some tasks \<longrightarrow> provideTasks rt p st = (tasks, p))
   \<and> (cachedTasks p = None \<longrightarrow>
        provideTasks rt p st = (rt p st, p\<lparr>cachedTasks := Some (rt p st)\<rparr>))
   \<and> invalidate h rd None p st
       = (p\<lparr>cachedTasks := None, invalidating := False, queue := []\<rparr>, st)
   \<and> provideTasks rt (fst (invalidate h rd None p st)) st'
       = (rt (p\<lparr>cachedTasks := None, invalidating := False, queue := []\<rparr>) st',
          p\<lparr>cachedTasks :=
               Some (rt (p\<lparr>cachedTasks := None, invalidating := False, queue := []\<rparr>) st'),
            invalidating := False, queue := []\<rparr>)
   \<and> provideTasks_pipenv h (fst (invalidate h (readUriTasks h) None p st)) st'
       = (readTasks_pipenv h st',
          p\<lparr>cachedTasks := Some (readTasks_pipenv h st'), invalidating := False, queue := []\<rparr>)
   \<and> readTasks_pipenv h st'
       = (if workspaceFolders h \<noteq> None
          then concat (map (readUriTasks h)
                 (visits (\<lambda>u. \<not> isExcluded h (path u)) [] (cacheUris st' ''pipenv'')))
          else [])
   \<and> provideTasks_base h rd (fst (invalidate h rd None p st)) st'
       = (readTasks h rd p st',
          p\<lparr>cachedTasks := Some (readTasks h rd p st'), invalidating := False, queue := []\<rparr>)
   \<and> readTasks h rd p st'
       = (if enabled h (providerName p)
          then concat (map rd
                 (visits (\<lambda>u. \<not> isExcluded h (path u) \<and> pathExists h (fsPath u)) []
                    (cacheUris st' (providerName p))))
          else [])"
proof -
  have rt: "readTasks h rd (p\<lparr>cachedTasks := None, invalidating := False, queue := []\<rparr>) st'
              = readTasks h rd p st'"
    by (simp add: readTasks_def cong: option.case_cong)
  show ?thesis
    using readTasks_visits[of h rd p st'] readTasks_pipenv_visits[of h st'] rt
    by (simp add: invalidate_all provideTasks_def provideTasks_pipenv_def provideTasks_base_def
        Let_def)
qed

theorem provideTasks_cached_witness:
  "cachedTasks \<lparr>cachedTasks = Some [], invalidating = False, providerName = ''pipenv'',
                queue = []\<rparr> = Some []
   \<and> provideTasks_pipenv sample_host
       \<lparr>cachedTasks = Some [], invalidating = False, providerName = ''pipenv'', queue = []\<rparr>
       dup_state
     = ([], \<lparr>cachedTasks = Some [], invalidating = False, providerName = ''pipenv'', queue = []\<rparr>)
   \<and> cachedTasks \<lparr>cachedTasks = None, invalidating = False, providerName = ''pipenv'',
                  queue = []\<rparr> = None
   \<and> fst (provideTasks_pipenv sample_host
       \<lparr>cachedTasks = None, invalidating = False, providerName = ''pipenv'', queue = []\<rparr>
       dup_state)
     = readUriTasks sample_host pipfileUri
   \<and> fst (provideTasks_pipenv sample_host
       (fst (invalidate sample_host (readUriTasks sample_host) None
          \<lparr>cachedTasks = Some [], invalidating = False, providerName = ''pipenv'', queue = []\<rparr>
          dup_state))
       dup_state)
     = readUriTasks sample_host pipfileUri
   \<and> map taskName (readUriTasks sample_host pipfileUri) = [''test'', ''lint'']
   \<and> fst (provideTasks_pipenv (sample_host\<lparr>enabled := (\<lambda>_. False)\<rparr>)
       \<lparr>cachedTasks = None, invalidating = False, providerName = ''pipenv'', queue = []\<rparr>
       dup_state)
     = readUriTasks (sample_host\<lparr>enabled := (\<lambda>_. False)\<rparr>) pipfileUri
   \<and> fst (provideTasks_base (sample_host\<lparr>enabled := (\<lambda>_. False)\<rparr>) (readUriTasks sample_host)
       \<lparr>cachedTasks = None, invalidating = False, providerName = ''pipenv'', queue = []\<rparr>
       dup_state)
     = []"
proof -
  let ?p = "\<lparr>cachedTasks = Some [], invalidating = False, providerName = ''pipenv'', queue = []\<rparr>"
  let ?q = "\<lparr>cachedTasks = None, invalidating = False, providerName = ''pipenv'', queue = []\<rparr>"
  let ?rd = "readUriTasks sample_host"
  let ?h' = "sample_host\<lparr>enabled := (\<lambda>_. False)\<rparr>"
  have a: "cachedTasks ?p = Some []" "cachedTasks ?q = None" by simp_all
  have c: "cacheUris dup_state ''pipenv'' = [pipfileUri, pipfileUri]"
    by (simp add: cacheUris_def cacheSet_def dup_state_def)
  have e: "workspaceFolders sample_host \<noteq> None" "\<And>x. \<not> isExcluded sample_host x"
    "workspaceFolders ?h' \<noteq> None" "\<And>x. \<not> isExcluded ?h' x" "\<not> enabled ?h' ''pipenv''"
    by (simp_all add: sample_host_def)
  note tp = provideTasks_cached[of ?p "[]" "\<lambda>_. readTasks_pipenv sample_host" dup_state
      sample_host ?rd dup_state]
  note tq = provideTasks_cached[of ?q "[]" "\<lambda>_. readTasks_pipenv sample_host" dup_state
      sample_host ?rd dup_state]
  note tq' = provideTasks_cached[of ?q "[]" "\<lambda>_. readTasks_pipenv ?h'" dup_state
      ?h' ?rd dup_state]
  note tb' = provideTasks_cached[of ?q "[]" "readTasks ?h' ?rd" dup_state ?h' ?rd dup_state]
  have r: "readTasks_pipenv sample_host dup_state = ?rd pipfileUri"
    using tp c e(1,2) by simp
  have r': "readTasks_pipenv ?h' dup_state = readUriTasks ?h' pipfileUri"
    using tq' c e(3,4) by simp
  have rb: "readTasks ?h' ?rd ?q dup_state = []"
    using tb' e(5) by simp
  have 1: "provideTasks_pipenv sample_host ?p dup_state = ([], ?p)"
    using tp a(1) by (simp add: provideTasks_pipenv_def)
  have 2: "fst (provideTasks_pipenv sample_host ?q dup_state) = ?rd pipfileUri"
    using tq a(2) r by (simp add: provideTasks_pipenv_def)
  have "provideTasks_pipenv sample_host
          (fst (invalidate sample_host ?rd None ?p dup_state)) dup_state
        = (readTasks_pipenv sample_host dup_state,
           ?p\<lparr>cachedTasks := Some (readTasks_pipenv sample_host dup_state),
              invalidating := False, queue := []\<rparr>)"
    using tp by blast
  then have 3: "fst (provideTasks_pipenv sample_host
              (fst (invalidate sample_host ?rd None ?p dup_state)) dup_state) = ?rd pipfileUri"
    by (simp only: fst_conv r)
  have 4: "map taskName (?rd pipfileUri) = [''test'', ''lint'']"
    by (simp add: readUriTasks_def findTargets_def createTask_def Let_def sample_host_def
        objectEntries_def isArrayIndex_def isDigit_def)
  have 5: "fst (provideTasks_pipenv ?h' ?q dup_state) = readUriTasks ?h' pipfileUri"
    using tq' a(2) r' by (simp add: provideTasks_pipenv_def)
  have 6: "fst (provideTasks_base ?h' ?rd ?q dup_state) = []"
    using tb' a(2) rb by (simp add: provideTasks_base_def)
  show ?thesis using a 1 2 3 4 5 6 by simp
qed

end
